theory Spec2Isabelle
  imports Main
begin

section \<open>Failures and envelopes shared by both halves\<close>

text \<open>
  A thrown value. \<open>e.statusCode\<close> is absent on a plain \<open>Error\<close> or \<open>TypeError\<close> and
  present on the errors of \<open>http-errors\<close>; \<open>e.message\<close> is the text; \<open>e.extra\<close> is the
  optional structured detail the dispatcher copies into its error envelope.
\<close>

datatype failure = Failure (f_statusCode: "nat option") (f_message: string) (f_extra: "string option")

definition NotFound :: failure where
  "NotFound = Failure (Some 404) ''Not Found'' None"



definition TypeError :: "string \<Rightarrow> failure" where
  "TypeError msg = Failure None msg None"

text \<open>
  The \<open>TypeError\<close> the engine raises when the property \<open>p\<close> of \<open>undefined\<close> is read,
  with the text V8 gives it.
\<close>

definition reading_undefined :: "string \<Rightarrow> failure" where
  "reading_undefined p =
     TypeError (''Cannot read properties of undefined (reading '' @ [CHR 0x27] @ p @ [CHR 0x27] @ '')'')"

text \<open>
  The request envelope (\<open>IRequest\<close>) that crosses the queue, and the result envelope
  (\<open>IResult\<close>, an \<open>IBaseResponse\<close> with \<open>result\<close> and \<open>cache\<close>). Headers, query,
  parameters, bodies and results are opaque to the code modelled here and are kept as
  strings.
\<close>

record request =
  req_method :: string
  url :: string
  headers :: string
  query :: string
  params :: string
  body :: "string option"

record ICache =
  isPrivate :: "bool option"
  noCache :: "bool option"
  noStore :: "bool option"
  maxAge :: "nat option"
  lastModified :: "string option"

record IBaseResponse =
  statusCode :: nat
  elapsed :: "int option"

record IResult = IBaseResponse +
  result :: "string option"
  cache :: "ICache option"

record IError = IBaseResponse +
  error :: string
  extra :: "string option"

text \<open>
  \<open>String.prototype.toLocaleUpperCase\<close> on the ASCII letters, which is all an HTTP method
  name holds; every other character is left as it is.
\<close>

definition upper_char :: "char \<Rightarrow> char" where
  "upper_char c =
     (case map_of (zip ''abcdefghijklmnopqrstuvwxyz'' ''ABCDEFGHIJKLMNOPQRSTUVWXYZ'') c of
        Some u \<Rightarrow> u
      | None \<Rightarrow> c)"

definition toLocaleUpperCase :: "string \<Rightarrow> string" where
  "toLocaleUpperCase s = map upper_char s"

text \<open>
  The library function \<open>match(path, url)\<close> of \<open>node-match-path\<close> returns an object
  \<open>{ matches, params }\<close>; the dispatcher reads its \<open>matches\<close> field. In JavaScript an
  object is truthy whatever its fields hold, which is what \<open>!!\<close> computes.
\<close>

record Match =
  matches :: bool
  match_params :: "(string \<times> string) list option"

datatype 'o js_value = Undefined | Null | Boolean bool | Object 'o

fun truthy :: "'o js_value \<Rightarrow> bool" where
  "truthy Undefined = False"
| "truthy Null = False"
| "truthy (Boolean b) = b"
| "truthy (Object _) = True"

section \<open>Worker side: the decorators Guard, Cache, Path and Queue\<close>

text \<open>
  A guard or matcher (\<open>CheckData\<close>) and a handler (\<open>PathFunction\<close>) are JavaScript
  functions: they may read and change the worker's state \<open>'s\<close> and may throw. A handler is
  a method of a queue class: it is called with a receiver \<open>this\<close>, an instance \<open>'i\<close> of the
  class, or with none (\<open>this\<close> is \<open>undefined\<close>) when it is called as a plain function.
  Guards and matchers are only ever called as plain functions.
\<close>

type_synonym 's CheckData = "request \<Rightarrow> 's \<Rightarrow> (failure + bool) \<times> 's"
type_synonym ('i, 's) PathFunction = "'i option \<Rightarrow> request \<Rightarrow> 's \<Rightarrow> (failure + IResult) \<times> 's"
type_synonym ('i, 's) route = "'s CheckData \<times> ('i, 's) PathFunction"
type_synonym ('i, 's) paths = "string \<rightharpoonup> (string \<rightharpoonup> ('i, 's) route list)"





text \<open>
  \<open>Path(method, url)\<close>: a string \<open>url\<close> is replaced by the matcher
  \<open>({ url }) => !!match(fixUrl(url_), fixUrl(url))\<close>; the pair of matcher and handler is
  pushed onto the bin of the upper-cased method of the class \<open>target.constructor.name\<close>.
  The handler pushed is \<open>descriptor.value\<close> as it is when the decorator is applied.
  \<open>fixUrl\<close> is a helper imported from \<open>./utils\<close> whose definition is not in the files
  modelled here; it is a parameter, as is the library's \<open>match\<close>.
\<close>

datatype 's url_arg = Literal string | Predicate "'s CheckData"

definition literal_check :: "(string \<Rightarrow> string \<Rightarrow> Match) \<Rightarrow> (string \<Rightarrow> string) \<Rightarrow> string \<Rightarrow> 's CheckData" where
  "literal_check match fixUrl pattern data s =
     (Inr (truthy (Object (match (fixUrl pattern) (fixUrl (url data))))), s)"

definition Path ::
  "(string \<Rightarrow> string \<Rightarrow> Match) \<Rightarrow> (string \<Rightarrow> string) \<Rightarrow> string \<Rightarrow> 's url_arg \<Rightarrow> string
     \<Rightarrow> ('i, 's) PathFunction \<Rightarrow> ('i, 's) paths \<Rightarrow> ('i, 's) paths" where
  "Path match fixUrl meth url_arg target func paths =
     (let check = (case url_arg of
                     Literal pattern \<Rightarrow> literal_check match fixUrl pattern
                   | Predicate p \<Rightarrow> p);
          bins = (case paths target of None \<Rightarrow> Map.empty | Some b \<Rightarrow> b);
          METHOD = toLocaleUpperCase meth;
          bin = (case bins METHOD of None \<Rightarrow> [] | Some ts \<Rightarrow> ts)
      in paths(target \<mapsto> bins(METHOD \<mapsto> bin @ [(check, func)])))"




text \<open>
  \<open>Queue(baseUrl)\<close> first repairs the base url (a leading \<open>/\<close> is put in front, trailing
  \<open>/\<close> are cut off one at a time), then returns a subclass of the decorated class with
  the methods \<open>find\<close> and \<open>run\<close>. The subclass closes over the class (its name is the key
  into \<open>paths\<close>) and over the repaired base url.
\<close>

function strip_slashes :: "string \<Rightarrow> string" where
  "strip_slashes baseUrl =
     (if baseUrl \<noteq> [] \<and> last baseUrl = CHR ''/'' then strip_slashes (butlast baseUrl) else baseUrl)"
  by pat_completeness auto
termination
  by (relation "measure length") auto

definition fix_baseUrl :: "string \<Rightarrow> string" where
  "fix_baseUrl baseUrl =
     (if baseUrl \<noteq> [] then
        strip_slashes (if hd baseUrl \<noteq> CHR ''/'' then CHR ''/'' # baseUrl else baseUrl)
      else baseUrl)"

record queue_class =
  ctor :: string
  baseUrl :: string

definition Queue :: "string \<Rightarrow> string \<Rightarrow> queue_class" where
  "Queue base ctor_name = \<lparr>ctor = ctor_name, baseUrl = fix_baseUrl base\<rparr>"

text \<open>\<open>Array.prototype.find\<close> with the callback \<open>([checkUrl]) => checkUrl(d)\<close>.\<close>

fun array_find :: "('i, 's) route list \<Rightarrow> request \<Rightarrow> 's \<Rightarrow> (failure + ('i, 's) route option) \<times> 's" where
  "array_find [] d s = (Inr None, s)"
| "array_find (t # ts) d s =
     (case fst t d s of
        (Inl e, s') \<Rightarrow> (Inl e, s')
      | (Inr b, s') \<Rightarrow> if b then (Inr (Some t), s') else array_find ts d s')"

text \<open>
  The pairs of a method bin (none when the bin is missing), and what it is for every
  matcher of a list to reject a request: the matchers are called in order, each in the
  state the one before left, each returns false, and the state after the last is returned.
\<close>

definition bin_of :: "(string \<rightharpoonup> ('i, 's) route list) \<Rightarrow> string \<Rightarrow> ('i, 's) route list" where
  "bin_of bins m = (case bins m of None \<Rightarrow> [] | Some ts \<Rightarrow> ts)"

fun all_false :: "('i, 's) route list \<Rightarrow> request \<Rightarrow> 's \<Rightarrow> 's option" where
  "all_false [] d s = Some s"
| "all_false (t # ts) d s =
     (case fst t d s of
        (Inr False, s') \<Rightarrow> all_false ts d s'
      | _ \<Rightarrow> None)"

text \<open>
  \<open>find(data)\<close>: a missing bin for \<open>data.method\<close> is created empty (a write to \<open>paths\<close>),
  then the bin is searched with the url of the request replaced by \<open>fixUrl(data.url)\<close>.
  A class that no \<open>Path\<close> registered under has no entry in \<open>paths\<close>, and reading
  the property \<open>data.method\<close> of \<open>undefined\<close> raises a \<open>TypeError\<close>.
\<close>

definition Queue_find ::
  "(string \<Rightarrow> string) \<Rightarrow> queue_class \<Rightarrow> ('i, 's) paths \<Rightarrow> request \<Rightarrow> 's
     \<Rightarrow> (failure + ('i, 's) route option) \<times> ('i, 's) paths \<times> 's" where
  "Queue_find fixUrl this paths data s =
     (case paths (ctor this) of
        None \<Rightarrow> (Inl (reading_undefined (req_method data)), paths, s)
      | Some bins \<Rightarrow>
          (let bins' = (case bins (req_method data) of
                          None \<Rightarrow> bins(req_method data \<mapsto> [])
                        | Some _ \<Rightarrow> bins);
               paths' = paths(ctor this \<mapsto> bins');
               bin = (case bins' (req_method data) of None \<Rightarrow> [] | Some ts \<Rightarrow> ts)
           in case array_find bin (data\<lparr>url := fixUrl (url data)\<rparr>) s of
                (r, s') \<Rightarrow> (r, paths', s')))"

text \<open>
  The expression \<open>this.find(data) || this.find({ ...data, method: 'ALL' })\<close> of \<open>run\<close>:
  the second \<open>find\<close> is evaluated only when the first found no pair.
\<close>

definition Queue_target ::
  "(string \<Rightarrow> string) \<Rightarrow> queue_class \<Rightarrow> ('i, 's) paths \<Rightarrow> request \<Rightarrow> 's
     \<Rightarrow> (failure + ('i, 's) route option) \<times> ('i, 's) paths \<times> 's" where
  "Queue_target fixUrl this paths data s =
     (case Queue_find fixUrl this paths data s of
        (Inl e, paths1, s1) \<Rightarrow> (Inl e, paths1, s1)
      | (Inr (Some target), paths1, s1) \<Rightarrow> (Inr (Some target), paths1, s1)
      | (Inr None, paths1, s1) \<Rightarrow>
          Queue_find fixUrl this paths1 (data\<lparr>req_method := ''ALL''\<rparr>) s1)"

text \<open>
  \<open>run(data)\<close>, called on the instance \<open>self\<close> of the class \<open>this\<close>: \<open>NotFound\<close> when
  neither \<open>find\<close> found a pair, else \<open>target[1].apply(this, [data])\<close>: the handler of the
  pair is called on the instance, with the request as it came (its url not repaired).
\<close>

definition Queue_run ::
  "(string \<Rightarrow> string) \<Rightarrow> queue_class \<Rightarrow> 'i \<Rightarrow> ('i, 's) paths \<Rightarrow> request \<Rightarrow> 's
     \<Rightarrow> (failure + IResult) \<times> ('i, 's) paths \<times> 's" where
  "Queue_run fixUrl this self paths data s =
     (case Queue_target fixUrl this paths data s of
        (Inl e, paths1, s1) \<Rightarrow> (Inl e, paths1, s1)
      | (Inr None, paths1, s1) \<Rightarrow> (Inl NotFound, paths1, s1)
      | (Inr (Some target), paths1, s1) \<Rightarrow>
          (case snd target (Some self) data s1 of (r, s2) \<Rightarrow> (r, paths1, s2)))"

section \<open>Dependency registry (class Dependencies)\<close>











section \<open>Transactions (inTransaction)\<close>

text \<open>
  The storage layer is a library; \<open>inTransaction\<close> calls three of its
  operations, each of which acts on the store \<open>'s\<close> and may fail:
  \<open>sequelize.transaction()\<close>, \<open>transaction.commit()\<close> and \<open>transaction.rollback()\<close>.
  A transaction handle is a number. \<open>MyException.throw(func, e)\<close> throws an exception made
  from the name of the function and the error caught; how it is made is the parameter
  \<open>wrap\<close>.
\<close>

record 's Sequelize =
  transaction :: "'s \<Rightarrow> (failure + nat) \<times> 's"
  commit :: "nat \<Rightarrow> 's \<Rightarrow> (failure + unit) \<times> 's"
  rollback :: "nat \<Rightarrow> 's \<Rightarrow> (failure + unit) \<times> 's"

text \<open>
  The \<open>try\<close> statement of \<open>inTransaction\<close>, entered with the transaction to use.
  The \<open>finally\<close> block commits when the transaction is the function's own and the flag
  \<open>rollback\<close> was not set; an exception of the \<open>finally\<close> block replaces the pending
  return or exception.
\<close>

definition inTransaction_try ::
  "'s Sequelize \<Rightarrow> (string \<Rightarrow> failure \<Rightarrow> failure) \<Rightarrow> (nat \<Rightarrow> 's \<Rightarrow> (failure + 'a) \<times> 's)
     \<Rightarrow> bool \<Rightarrow> nat \<Rightarrow> 's \<Rightarrow> (failure + 'a) \<times> 's" where
  "inTransaction_try sequelize wrap callback withTransaction t s =
     (case callback t s of
        (Inr v, s1) \<Rightarrow>
          (if \<not> withTransaction then
             (case commit sequelize t s1 of
                (Inl e, s2) \<Rightarrow> (Inl e, s2)
              | (Inr _, s2) \<Rightarrow> (Inr v, s2))
           else (Inr v, s1))
      | (Inl e, s1) \<Rightarrow>
          (if \<not> withTransaction then
             (case rollback sequelize t s1 of
                (Inr _, s2) \<Rightarrow> (Inl (wrap ''inTransaction'' e), s2)
              | (Inl e', s2) \<Rightarrow>
                  (case commit sequelize t s2 of
                     (Inl e'', s3) \<Rightarrow> (Inl e'', s3)
                   | (Inr _, s3) \<Rightarrow> (Inl e', s3)))
           else (Inl (wrap ''inTransaction'' e), s1)))"

definition inTransaction ::
  "'s Sequelize \<Rightarrow> (string \<Rightarrow> failure \<Rightarrow> failure) \<Rightarrow> (nat \<Rightarrow> 's \<Rightarrow> (failure + 'a) \<times> 's)
     \<Rightarrow> nat option \<Rightarrow> 's \<Rightarrow> (failure + 'a) \<times> 's" where
  "inTransaction sequelize wrap callback txn s =
     (case txn of
        Some t \<Rightarrow> inTransaction_try sequelize wrap callback True t s
      | None \<Rightarrow>
          (case transaction sequelize s of
             (Inl e, s0) \<Rightarrow> (Inl e, s0)
           | (Inr t, s0) \<Rightarrow> inTransaction_try sequelize wrap callback False t s0))"

section \<open>Master side: the dispatcher and the health check of masterMain\<close>

text \<open>
  What the two request handlers call that is defined elsewhere, as parameters. The world
  \<open>'w\<close> holds the broker, the clock and whatever the hooks touch.
  \<^item> \<open>pathname\<close>: \<open>new URL(request.url, base).pathname\<close>, which throws on a url that does
    not parse;
  \<^item> \<open>matchPath\<close>: the library's \<open>match(path, url)\<close>;
  \<^item> \<open>save\<close>: \<open>connectQueue('server', key, ...).createJob(data).save()\<close>, which yields the
    job (its id) or fails; \<open>connectQueue\<close> only builds the handle of the named queue;
  \<^item> \<open>wait\<close>: the repository's \<open>wait(queue, job, timeout)\<close>, which yields the result
    envelope of the job or throws;
  \<^item> \<open>now\<close>: \<open>Date.now()\<close>;
  \<^item> \<open>applyCache\<close>: the repository's \<open>applyCache(reply, cache)\<close>, which writes cache
    headers on the reply;
  \<^item> \<open>bad_status_code\<close>: the error the ingress layer's \<open>reply.status(code)\<close> throws for
    the code it is given, when it refuses it.
\<close>

record reply =
  status :: nat
  reply_headers :: "(string \<times> string) list"

record 'w env =
  pathname :: "string \<Rightarrow> failure + string"
  matchPath :: "string \<Rightarrow> string \<Rightarrow> Match"
  save :: "string \<Rightarrow> request \<Rightarrow> 'w \<Rightarrow> (failure + nat) \<times> 'w"
  wait :: "string \<Rightarrow> nat \<Rightarrow> nat \<Rightarrow> 'w \<Rightarrow> (failure + IResult) \<times> 'w"
  now :: "'w \<Rightarrow> int"
  applyCache :: "reply \<Rightarrow> ICache \<Rightarrow> reply"
  bad_status_code :: "nat \<Rightarrow> failure"

text \<open>
  \<open>reply.status(code)\<close> of the ingress layer: a code below 100 or above 599 is refused
  with an exception, any other code is written on the reply.
\<close>

definition reply_status :: "'w env \<Rightarrow> reply \<Rightarrow> nat \<Rightarrow> failure + reply" where
  "reply_status env rep code =
     (if code < 100 \<or> 599 < code then Inl (bad_status_code env code)
      else Inr (rep\<lparr>status := code\<rparr>))"

record IMasterConfig =
  timeout :: "nat option"
  config_cache :: "ICache option"

text \<open>
  An entry of the mapping table. The handler takes \<open>method\<close>, \<open>path\<close>, \<open>pre\<close>, \<open>post\<close>
  and \<open>queue\<close> from each entry. The interface \<open>IMapper\<close> marks \<open>method\<close> optional (and
  does not list the two hooks, which the handler tests before it calls them); \<open>plugins\<close>
  is read by the ingress hooks only. A hook works on the objects it is given:
  \<open>pre(request, data)\<close> returns the job data as it left them or throws,
  \<open>post(request, reply, result)\<close> returns the reply and the result as it left them, with
  the exception it threw, if any.
\<close>

record 'w IMapper =
  map_method :: "string option"
  path :: string
  queue :: string
  pre :: "(request \<Rightarrow> request \<Rightarrow> 'w \<Rightarrow> (failure + request) \<times> 'w) option"
  post :: "(request \<Rightarrow> reply \<Rightarrow> IResult \<Rightarrow> 'w \<Rightarrow> failure option \<times> reply \<times> IResult \<times> 'w) option"

datatype response = ResultEnvelope IResult | ErrorEnvelope IError

text \<open>\<open>e.statusCode || httpStatus.INTERNAL_SERVER_ERROR\<close>: an absent code and the code 0 are falsy.\<close>

definition statusCode_or_500 :: "failure \<Rightarrow> nat" where
  "statusCode_or_500 e =
     (case f_statusCode e of
        None \<Rightarrow> 500
      | Some c \<Rightarrow> if c = 0 then 500 else c)"

text \<open>\<open>config.timeout || 30 * 1000\<close>.\<close>

definition timeout_or_default :: "IMasterConfig \<Rightarrow> nat" where
  "timeout_or_default config =
     (case timeout config of
        None \<Rightarrow> 30 * 1000
      | Some t \<Rightarrow> if t = 0 then 30 * 1000 else t)"

text \<open>
  The statements under \<open>if (matches)\<close>, for the entry \<open>m\<close> of the table, in three
  parts, last first: from \<open>reply.status(result.statusCode)\<close> to the \<open>return\<close>; the
  two awaits \<open>queue.createJob(data).save()\<close> and \<open>wait(queue, job, timeout)\<close>; and the
  making of the job data with the \<open>pre\<close> hook and the body of a writing request.
  An outcome is what is returned or thrown, the reply and the world.
\<close>

definition respond ::
  "'w env \<Rightarrow> request \<Rightarrow> int \<Rightarrow> 'w IMapper \<Rightarrow> reply \<Rightarrow> IResult \<Rightarrow> 'w
     \<Rightarrow> (failure + IResult) \<times> reply \<times> 'w" where
  "respond env req start m rep res w3 =
     (case reply_status env rep (statusCode res) of
        Inl e \<Rightarrow> (Inl e, rep, w3)
      | Inr rep1 \<Rightarrow>
          (case (case post m of
                   None \<Rightarrow> (None, rep1, res, w3)
                 | Some g \<Rightarrow> g req rep1 res w3) of
             (Some e, rep2, res2, w4) \<Rightarrow> (Inl e, rep2, w4)
           | (None, rep2, res2, w4) \<Rightarrow>
               (case (case cache res2 of
                        Some c \<Rightarrow> (applyCache env rep2 c, res2\<lparr>cache := None\<rparr>)
                      | None \<Rightarrow> (rep2, res2)) of
                  (rep3, res3) \<Rightarrow>
                    (Inr (res3\<lparr>elapsed := Some (now env w4 - start)\<rparr>), rep3, w4))))"

definition submit ::
  "'w env \<Rightarrow> IMasterConfig \<Rightarrow> request \<Rightarrow> int \<Rightarrow> 'w IMapper \<Rightarrow> reply \<Rightarrow> request \<Rightarrow> 'w
     \<Rightarrow> (failure + IResult) \<times> reply \<times> 'w" where
  "submit env config req start m rep data w1 =
     (case save env (queue m) data w1 of
        (Inl e, w2) \<Rightarrow> (Inl e, rep, w2)
      | (Inr job, w2) \<Rightarrow>
          (case wait env (queue m) job (timeout_or_default config) w2 of
             (Inl e, w3) \<Rightarrow> (Inl e, rep, w3)
           | (Inr res, w3) \<Rightarrow> respond env req start m rep res w3))"

definition forward ::
  "'w env \<Rightarrow> IMasterConfig \<Rightarrow> request \<Rightarrow> int \<Rightarrow> 'w IMapper \<Rightarrow> string \<Rightarrow> reply \<Rightarrow> 'w
     \<Rightarrow> (failure + IResult) \<times> reply \<times> 'w" where
  "forward env config req start m REQ_METHOD rep w =
     (let data = \<lparr>req_method = REQ_METHOD, url = url req, headers = headers req,
                  query = query req, params = params req, body = None\<rparr>
      in case (case pre m of None \<Rightarrow> (Inr data, w) | Some f \<Rightarrow> f req data w) of
           (Inl e, w1) \<Rightarrow> (Inl e, rep, w1)
         | (Inr data1, w1) \<Rightarrow>
             submit env config req start m rep
               (if REQ_METHOD \<in> set [''POST'', ''PUT'', ''PATCH'']
                then data1\<lparr>body := body req\<rparr> else data1) w1)"

text \<open>
  The \<open>for\<close> loop over the table and the two statements after it
  (\<open>reply.status(httpStatus.NOT_FOUND); throw new NotFound()\<close>). At an entry without a
  method, \<open>method\<close> is \<open>undefined\<close> and \<open>method.toLocaleUpperCase()\<close> throws a
  \<open>TypeError\<close>.
\<close>

fun mapper_loop ::
  "'w env \<Rightarrow> IMasterConfig \<Rightarrow> request \<Rightarrow> string \<Rightarrow> int \<Rightarrow> 'w IMapper list \<Rightarrow> reply \<Rightarrow> 'w
     \<Rightarrow> (failure + IResult) \<times> reply \<times> 'w" where
  "mapper_loop env config req url_pathname start [] rep w =
     (case reply_status env rep 404 of
        Inl e \<Rightarrow> (Inl e, rep, w)
      | Inr rep' \<Rightarrow> (Inl NotFound, rep', w))"
| "mapper_loop env config req url_pathname start (m # mapper) rep w =
     (let REQ_METHOD = toLocaleUpperCase (req_method req)
      in case map_method m of
           None \<Rightarrow> (Inl (reading_undefined ''toLocaleUpperCase''), rep, w)
         | Some meth \<Rightarrow>
             (let MAP_METHOD = toLocaleUpperCase meth
              in if REQ_METHOD = MAP_METHOD \<or> ''ALL'' = MAP_METHOD then
                   if matches (matchPath env (path m) url_pathname)
                   then forward env config req start m REQ_METHOD rep w
                   else mapper_loop env config req url_pathname start mapper rep w
                 else mapper_loop env config req url_pathname start mapper rep w))"

text \<open>The \<open>try\<close> block of the handler of \<open>app.all('*')\<close>.\<close>

definition dispatcher_try ::
  "'w env \<Rightarrow> IMasterConfig \<Rightarrow> 'w IMapper list \<Rightarrow> request \<Rightarrow> int \<Rightarrow> reply \<Rightarrow> 'w
     \<Rightarrow> (failure + IResult) \<times> reply \<times> 'w" where
  "dispatcher_try env config mapper req start rep w =
     (case pathname env (url req) of
        Inl e \<Rightarrow> (Inl e, rep, w)
      | Inr url_pathname \<Rightarrow> mapper_loop env config req url_pathname start mapper rep w)"

text \<open>
  The handler of \<open>app.all('*')\<close>: the default cache, the clock reading \<open>start\<close>, the
  \<open>try\<close> block, and the \<open>catch\<close> block, which sets the status of the reply and returns
  the error envelope. What the \<open>catch\<close> block throws leaves the handler: the handler
  then returns no response of its own (\<open>Inl\<close>).
\<close>

definition dispatcher ::
  "'w env \<Rightarrow> IMasterConfig \<Rightarrow> 'w IMapper list \<Rightarrow> request \<Rightarrow> reply \<Rightarrow> 'w
     \<Rightarrow> (failure + response) \<times> reply \<times> 'w" where
  "dispatcher env config mapper req rep w =
     (let rep0 = (case config_cache config of
                    Some c \<Rightarrow> applyCache env rep c
                  | None \<Rightarrow> rep);
          start = now env w
      in case dispatcher_try env config mapper req start rep0 w of
           (Inr res, rep1, w1) \<Rightarrow> (Inr (ResultEnvelope res), rep1, w1)
         | (Inl e, rep1, w1) \<Rightarrow>
             (case reply_status env rep1 (statusCode_or_500 e) of
                Inl e' \<Rightarrow> (Inl e', rep1, w1)
              | Inr rep2 \<Rightarrow>
                  (Inr (ErrorEnvelope \<lparr>statusCode = statusCode_or_500 e,
                                       elapsed = Some (now env w1 - start),
                                       error = f_message e, extra = f_extra e\<rparr>),
                   rep2, w1)))"

text \<open>
  \<open>uniq\<close> of lodash: the values are visited in order and a value is appended to the
  result when the result does not hold it yet.
\<close>

fun baseUniq :: "'a list \<Rightarrow> 'a list \<Rightarrow> 'a list" where
  "baseUniq [] res = res"
| "baseUniq (x # xs) res = (if x \<in> set res then baseUniq xs res else baseUniq xs (res @ [x]))"

definition uniq :: "'a list \<Rightarrow> 'a list" where
  "uniq xs = baseUniq xs []"

text \<open>
  An element of the array the health check collects: the result of the probe's job with
  \<open>result\<close> removed, or the status and message of what was thrown, and in both cases the
  name of the queue and the time since \<open>start\<close>.
\<close>

record probe = IBaseResponse +
  probe_error :: "string option"
  probe_cache :: "ICache option"
  probe_queue :: string

datatype health_response =
    HealthResult nat "probe list" int
  | HealthError nat string int

definition httpStatus_500_NAME :: string where
  "httpStatus_500_NAME = ''INTERNAL_SERVER_ERROR''"

text \<open>
  The callback given to \<open>keys.map\<close>: one probe, with its \<open>try\<close> and \<open>catch\<close>. It returns
  its entry and the world it ends in.
\<close>

definition probe_queue_key ::
  "'w env \<Rightarrow> request \<Rightarrow> int \<Rightarrow> string \<Rightarrow> 'w \<Rightarrow> probe \<times> 'w" where
  "probe_queue_key env req start key w =
     (let data = \<lparr>req_method = ''HEALTH'', url = '''', headers = headers req,
                  query = ''{}'', params = ''{}'', body = None\<rparr>;
          caught = (\<lambda>e w'. (\<lparr>statusCode = statusCode_or_500 e,
                               elapsed = Some (now env w' - start),
                               probe_error = Some (f_message e), probe_cache = None,
                               probe_queue = key\<rparr>, w'))
      in case save env key data w of
           (Inl e, w1) \<Rightarrow> caught e w1
         | (Inr job, w1) \<Rightarrow>
             (case wait env key job (3 * 1000) w1 of
                (Inl e, w2) \<Rightarrow> caught e w2
              | (Inr res, w2) \<Rightarrow>
                  (\<lparr>statusCode = statusCode res, elapsed = Some (now env w2 - start),
                    probe_error = None, probe_cache = cache res, probe_queue = key\<rparr>,
                   w2)))"

text \<open>
  \<open>Promise.all(keys.map(async (key) => ...))\<close>: every probe is started before any of them
  completes, each on the queue of its own key, and no callback can reject. Each probe is
  given the world as it is at the start and ends in a world of its own, in which it reads
  the clock; the entries are collected in the order of the keys.
\<close>

definition health_probes ::
  "'w env \<Rightarrow> request \<Rightarrow> int \<Rightarrow> string list \<Rightarrow> 'w \<Rightarrow> (probe \<times> 'w) list" where
  "health_probes env req start keys w = map (\<lambda>key. probe_queue_key env req start key w) keys"

text \<open>
  The reading of the clock when the last of the probes has completed: the latest of the
  readings in the worlds the probes ended in (the clock does not run backwards), or
  \<open>start\<close> when there is no probe.
\<close>

definition latest :: "'w env \<Rightarrow> 'w list \<Rightarrow> int \<Rightarrow> int" where
  "latest env worlds start = fold (\<lambda>w' t. max t (now env w')) worlds start"

text \<open>
  The handler of \<open>app.get('/health')\<close>. It goes on when the last probe has completed.
  Its outcome holds the worlds the probes ended in, in the order of the keys.
\<close>

definition health ::
  "'w env \<Rightarrow> 'v IMapper list \<Rightarrow> request \<Rightarrow> reply \<Rightarrow> 'w
     \<Rightarrow> (failure + health_response) \<times> reply \<times> 'w list" where
  "health env mapper req rep w =
     (let rep0 = rep\<lparr>reply_headers := reply_headers rep @ [(''cache-control'', ''no-cache, no-store'')]\<rparr>;
          start = now env w;
          keys = uniq (map queue mapper);
          probes = health_probes env req start keys w;
          results = map fst probes;
          finished = latest env (map snd probes) start;
          unavailable = List.find (\<lambda>r. statusCode r \<noteq> 200) results;
          code = (if unavailable \<noteq> None then 503 else 200)
      in case reply_status env rep0 code of
           Inl e \<Rightarrow> (Inl e, rep0, map snd probes)
         | Inr rep1 \<Rightarrow>
             (Inr (if unavailable \<noteq> None
                   then HealthError code httpStatus_500_NAME (finished - start)
                   else HealthResult code results (finished - start)),
              rep1, map snd probes))"

section \<open>A broker that keeps what it is given\<close>

text \<open>
  To tell which jobs a handler hands to the broker, the world is paired with a list, and
  any environment is turned into one whose \<open>save\<close> appends the queue name and the job
  data it is called with to that list, before it does what the environment's \<open>save\<close>
  does. Nothing else writes the list: \<open>wait\<close>, the clock and the hooks of an entry work
  on the world as before.
\<close>

type_synonym 'w recorded = "'w \<times> (string \<times> request) list"

definition recording :: "'w env \<Rightarrow> 'w recorded env" where
  "recording env =
     \<lparr>pathname = pathname env,
      matchPath = matchPath env,
      save = (\<lambda>key data (w, jobs).
                case save env key data w of (r, w') \<Rightarrow> (r, (w', jobs @ [(key, data)]))),
      wait = (\<lambda>key job t (w, jobs).
                case wait env key job t w of (r, w') \<Rightarrow> (r, (w', jobs))),
      now = (\<lambda>(w, jobs). now env w),
      applyCache = applyCache env,
      bad_status_code = bad_status_code env\<rparr>"

definition recording_entry :: "'w IMapper \<Rightarrow> 'w recorded IMapper" where
  "recording_entry m =
     \<lparr>map_method = map_method m, path = path m, queue = queue m,
      pre = map_option
              (\<lambda>f req data (w, jobs). case f req data w of (r, w') \<Rightarrow> (r, (w', jobs)))
              (pre m),
      post = map_option
               (\<lambda>g req rep res (w, jobs).
                  case g req rep res w of (e, rep', res', w') \<Rightarrow> (e, rep', res', (w', jobs)))
               (post m)\<rparr>"

text \<open>The list of jobs in the world an outcome ends in.\<close>

definition jobs_saved :: "'a \<times> reply \<times> 'w recorded \<Rightarrow> (string \<times> request) list" where
  "jobs_saved outcome = snd (snd (snd outcome))"

text \<open>
  The jobs the probes of a health check have saved, in the order of the keys: each probe
  starts with no job and ends with its own.
\<close>

definition probes_saved :: "'a \<times> reply \<times> 'w recorded list \<Rightarrow> (string \<times> request) list" where
  "probes_saved outcome = concat (map snd (snd (snd outcome)))"

text \<open>An outcome in such a world without the list.\<close>

definition forget_jobs :: "'a \<times> reply \<times> 'w recorded \<Rightarrow> 'a \<times> reply \<times> 'w" where
  "forget_jobs outcome = (fst outcome, fst (snd outcome), fst (snd (snd outcome)))"

section \<open>Waiting for a job with a timeout\<close>

text \<open>
  Modelled from the spec: the function \<open>wait(queue, job, timeout)\<close> of the repository's
  utilities is not in the files modelled here. The spec has it register one listener for the
  success signal and one for the failure signal of the job, both keyed by the job id, and
  start a timer. The success signal resolves the wait with the result envelope, the failure
  signal rejects it with the reported status code and message, the timer rejects it with
  Gateway Timeout; whichever comes first, the other listeners and the timer are detached.
  What reaches the waiter, in the order it arrives, is a list of signals; a waiter records
  every resolution or rejection of its promise.
\<close>

datatype signal = JobSucceeded nat IResult | JobFailed nat nat string | TimerFired

definition GatewayTimeout :: failure where
  "GatewayTimeout = Failure (Some 504) ''Gateway Timeout'' None"

record waiter =
  job_id :: nat
  on_succeeded :: bool
  on_failed :: bool
  timer_armed :: bool
  resolutions :: "(failure + IResult) list"

definition wait_start :: "nat \<Rightarrow> waiter" where
  "wait_start job =
     \<lparr>job_id = job, on_succeeded = True, on_failed = True, timer_armed = True, resolutions = []\<rparr>"

definition settle :: "waiter \<Rightarrow> failure + IResult \<Rightarrow> waiter" where
  "settle st outcome =
     st\<lparr>on_succeeded := False, on_failed := False, timer_armed := False,
        resolutions := resolutions st @ [outcome]\<rparr>"

fun wait_step :: "waiter \<Rightarrow> signal \<Rightarrow> waiter" where
  "wait_step st (JobSucceeded j r) =
     (if on_succeeded st \<and> j = job_id st then settle st (Inr r) else st)"
| "wait_step st (JobFailed j code msg) =
     (if on_failed st \<and> j = job_id st then settle st (Inl (Failure (Some code) msg None)) else st)"
| "wait_step st TimerFired =
     (if timer_armed st then settle st (Inl GatewayTimeout) else st)"

definition wait_run :: "nat \<Rightarrow> signal list \<Rightarrow> waiter" where
  "wait_run job signals = foldl wait_step (wait_start job) signals"

text \<open>The signals that concern the wait on \<open>job\<close>, and the outcome each stands for.\<close>

fun concerns :: "nat \<Rightarrow> signal \<Rightarrow> bool" where
  "concerns job (JobSucceeded j r) = (j = job)"
| "concerns job (JobFailed j code msg) = (j = job)"
| "concerns job TimerFired = True"

fun outcome_of :: "signal \<Rightarrow> failure + IResult" where
  "outcome_of (JobSucceeded j r) = Inr r"
| "outcome_of (JobFailed j code msg) = Inl (Failure (Some code) msg None)"
| "outcome_of TimerFired = Inl GatewayTimeout"

section \<open>Matching entries and the fields of a response\<close>

text \<open>
  An entry matches a request whose url has the path \<open>p\<close> when it has a method that,
  upper-cased, is the request's method, upper-cased, or is \<open>ALL\<close>, and its path pattern
  matches \<open>p\<close>. An entry is passed over when it has a method and does not match.
\<close>

definition entry_matches :: "'w env \<Rightarrow> request \<Rightarrow> string \<Rightarrow> 'w IMapper \<Rightarrow> bool" where
  "entry_matches env req p m =
     (case map_method m of
        None \<Rightarrow> False
      | Some meth \<Rightarrow>
          (toLocaleUpperCase meth = toLocaleUpperCase (req_method req)
            \<or> toLocaleUpperCase meth = ''ALL'')
          \<and> matches (matchPath env (path m) p))"

definition passed_over :: "'w env \<Rightarrow> request \<Rightarrow> string \<Rightarrow> 'w IMapper \<Rightarrow> bool" where
  "passed_over env req p m = (map_method m \<noteq> None \<and> \<not> entry_matches env req p m)"

text \<open>The fields \<open>statusCode\<close> and \<open>elapsed\<close> of a response, of either kind.\<close>

fun response_statusCode :: "response \<Rightarrow> nat" where
  "response_statusCode (ResultEnvelope r) = statusCode r"
| "response_statusCode (ErrorEnvelope e) = statusCode e"


section \<open>A concrete world for worked examples\<close>

text \<open>
  The world is the clock in milliseconds. Every url parses to itself and a pattern matches
  the path equal to it. The queue \<open>mail\<close> refuses jobs; the queue \<open>orders\<close> never
  completes one, so that waiting on it ends at the timeout with 504; the queue \<open>odd\<close>
  completes its job with the status 99; every other queue completes its job with status
  200 after 50 ms.
\<close>

definition example_env :: "nat env" where
  "example_env =
     \<lparr>pathname = (\<lambda>u. Inr u),
      matchPath = (\<lambda>p u. \<lparr>matches = (p = u), match_params = None\<rparr>),
      save = (\<lambda>q d w. if q = ''mail''
                       then (Inl (Failure None ''connect ECONNREFUSED'' None), w)
                       else (Inr 1, w)),
      wait = (\<lambda>q job t w. if q = ''orders''
                           then (Inl (Failure (Some 504) ''Gateway Timeout'' None), w + t)
                           else (Inr \<lparr>statusCode = (if q = ''odd'' then 99 else 200), elapsed = None,
                                      result = Some ''done'', cache = None\<rparr>, w + 50)),
      now = (\<lambda>w. int w),
      applyCache = (\<lambda>r c. r\<lparr>reply_headers := reply_headers r @ [(''cache-control'', ''set'')]\<rparr>),
      bad_status_code = (\<lambda>c. Failure (Some 500) ''Called reply with an invalid status code'' None)\<rparr>"

definition example_entry :: "string \<Rightarrow> string \<Rightarrow> string \<Rightarrow> nat IMapper" where
  "example_entry m p q = \<lparr>map_method = Some m, path = p, queue = q, pre = None, post = None\<rparr>"

definition example_request :: "string \<Rightarrow> string \<Rightarrow> request" where
  "example_request m u =
     \<lparr>req_method = m, url = u, headers = ''{}'', query = ''{}'', params = ''{}'', body = None\<rparr>"

definition example_config :: IMasterConfig where
  "example_config = \<lparr>timeout = None, config_cache = None\<rparr>"

definition example_reply :: reply where
  "example_reply = \<lparr>status = 200, reply_headers = []\<rparr>"

section \<open>Properties of Guard\<close>









section \<open>Properties of Path and Queue\<close>

lemma literal_check_accepts: "literal_check match fixUrl pattern data s = (Inr True, s)"
  by (simp add: literal_check_def)

text \<open>
  What \<open>find\<close> and \<open>run\<close> do with the matchers a table holds: the bin of the request's
  method is searched in order with the url repaired, then the bin of \<open>ALL\<close> with the same
  repaired url, then NotFound is raised; the pair found first is the one whose handler runs.
\<close>

lemma array_find_first:
  "all_false before d s = Some s1 \<Longrightarrow> fst t d s1 = (Inr True, s2) \<Longrightarrow>
   array_find (before @ t # after) d s = (Inr (Some t), s2)"
proof (induction before arbitrary: s)
  case Nil
  then show ?case by simp
next
  case (Cons a before)
  obtain r s' where a: "fst a d s = (r, s')" by (cases "fst a d s")
  with Cons.prems(1) have r: "r = Inr False" and rest: "all_false before d s' = Some s1"
    by (auto split: sum.splits bool.splits)
  from Cons.IH [OF rest Cons.prems(2)] a r show ?case by simp
qed

lemma array_find_none:
  "all_false bin d s = Some s1 \<Longrightarrow> array_find bin d s = (Inr None, s1)"
proof (induction bin arbitrary: s)
  case Nil
  then show ?case by simp
next
  case (Cons a bin)
  obtain r s' where a: "fst a d s = (r, s')" by (cases "fst a d s")
  with Cons.prems have r: "r = Inr False" and rest: "all_false bin d s' = Some s1"
    by (auto split: sum.splits bool.splits)
  from Cons.IH [OF rest] a r show ?case by simp
qed

lemma Queue_find_bin:
  assumes "paths (ctor this) = Some bins"
  shows "\<exists>bins'. Queue_find fixUrl this paths data s
           = (fst (array_find (bin_of bins (req_method data)) (data\<lparr>url := fixUrl (url data)\<rparr>) s),
              paths(ctor this \<mapsto> bins'),
              snd (array_find (bin_of bins (req_method data)) (data\<lparr>url := fixUrl (url data)\<rparr>) s))
         \<and> (\<forall>m. bin_of bins' m = bin_of bins m)"
proof (cases "bins (req_method data)")
  case None
  with assms have "Queue_find fixUrl this paths data s
           = (fst (array_find (bin_of bins (req_method data)) (data\<lparr>url := fixUrl (url data)\<rparr>) s),
              paths(ctor this \<mapsto> bins(req_method data \<mapsto> [])),
              snd (array_find (bin_of bins (req_method data)) (data\<lparr>url := fixUrl (url data)\<rparr>) s))"
    by (simp add: Queue_find_def bin_of_def Let_def split: prod.splits)
  moreover from None have "\<forall>m. bin_of (bins(req_method data \<mapsto> [])) m = bin_of bins m"
    by (simp add: bin_of_def)
  ultimately show ?thesis by blast
next
  case (Some ts)
  with assms have "Queue_find fixUrl this paths data s
           = (fst (array_find (bin_of bins (req_method data)) (data\<lparr>url := fixUrl (url data)\<rparr>) s),
              paths(ctor this \<mapsto> bins),
              snd (array_find (bin_of bins (req_method data)) (data\<lparr>url := fixUrl (url data)\<rparr>) s))"
    by (simp add: Queue_find_def bin_of_def Let_def split: prod.splits)
  then show ?thesis by blast
qed

lemma Queue_run_resolution:
  assumes "paths (ctor this) = Some bins"
  shows "(case Queue_run fixUrl this self paths data s of (r, paths', s') \<Rightarrow> (r, s'))
     = (case array_find (bin_of bins (req_method data)) (data\<lparr>url := fixUrl (url data)\<rparr>) s of
          (Inl e, s1) \<Rightarrow> (Inl e, s1)
        | (Inr (Some target), s1) \<Rightarrow> snd target (Some self) data s1
        | (Inr None, s1) \<Rightarrow>
            (case array_find (bin_of bins ''ALL'')
                    (data\<lparr>req_method := ''ALL'', url := fixUrl (url data)\<rparr>) s1 of
               (Inl e, s2) \<Rightarrow> (Inl e, s2)
             | (Inr (Some target), s2) \<Rightarrow> snd target (Some self) data s2
             | (Inr None, s2) \<Rightarrow> (Inl NotFound, s2)))"
proof -
  from Queue_find_bin [where paths = paths and this = this and bins = bins and fixUrl = fixUrl
      and data = data and s = s, OF assms] obtain bins1
    where f1: "Queue_find fixUrl this paths data s
           = (fst (array_find (bin_of bins (req_method data)) (data\<lparr>url := fixUrl (url data)\<rparr>) s),
              paths(ctor this \<mapsto> bins1),
              snd (array_find (bin_of bins (req_method data)) (data\<lparr>url := fixUrl (url data)\<rparr>) s))"
      and b1: "\<forall>m. bin_of bins1 m = bin_of bins m" by blast
  obtain r1 s1 where a1: "array_find (bin_of bins (req_method data)) (data\<lparr>url := fixUrl (url data)\<rparr>) s = (r1, s1)"
    by (cases "array_find (bin_of bins (req_method data)) (data\<lparr>url := fixUrl (url data)\<rparr>) s")
  have p1: "(paths(ctor this \<mapsto> bins1)) (ctor this) = Some bins1" by simp
  from Queue_find_bin [where paths = "paths(ctor this \<mapsto> bins1)" and this = this and bins = bins1
      and fixUrl = fixUrl and data = "data\<lparr>req_method := ''ALL''\<rparr>" and s = s1, OF p1] b1
  obtain bins2
    where f2: "Queue_find fixUrl this (paths(ctor this \<mapsto> bins1)) (data\<lparr>req_method := ''ALL''\<rparr>) s1
           = (fst (array_find (bin_of bins ''ALL'') (data\<lparr>req_method := ''ALL'', url := fixUrl (url data)\<rparr>) s1),
              paths(ctor this \<mapsto> bins2),
              snd (array_find (bin_of bins ''ALL'') (data\<lparr>req_method := ''ALL'', url := fixUrl (url data)\<rparr>) s1))"
    by auto
  obtain r2 s2 where a2: "array_find (bin_of bins ''ALL'') (data\<lparr>req_method := ''ALL'', url := fixUrl (url data)\<rparr>) s1 = (r2, s2)"
    by (cases "array_find (bin_of bins ''ALL'') (data\<lparr>req_method := ''ALL'', url := fixUrl (url data)\<rparr>) s1")
  show ?thesis
    unfolding Queue_run_def Queue_target_def f1 a1
    by (cases r1; cases r2) (auto simp: f2 a2 split: option.splits prod.splits)
qed

text \<open>
  C2, at the inputs where the code leaves the claim. The matcher that \<open>Path\<close> builds from
  a string tests the object \<open>match\<close> returns and not its field \<open>matches\<close>, so it accepts
  every request, whatever \<open>match\<close> and \<open>fixUrl\<close> compute. With \<open>h1\<close> registered for
  \<open>GET\<close> under the literal path \<open>/a\<close>, a \<open>GET\<close> request for \<open>/b\<close> is answered by \<open>h1\<close>:
  when \<open>h2\<close> is registered for \<open>GET\<close> under \<open>/b\<close> after it, when \<open>h2\<close> is registered for
  \<open>ALL\<close> under \<open>/b\<close>, and when nothing else is registered, where the claim has \<open>h2\<close>,
  \<open>h2\<close> and NotFound.
\<close>

theorem Queue_run_literal_first_pair_wins:
  "(case Queue_run fixUrl (Queue base ''Users'') self
           (Path match fixUrl ''get'' (Literal ''/b'') ''Users'' h2
             (Path match fixUrl ''get'' (Literal ''/a'') ''Users'' h1 Map.empty))
           \<lparr>req_method = ''GET'', url = ''/b'', headers = hs, query = q, params = ps, body = None\<rparr> s
    of (r, paths', s') \<Rightarrow> (r, s'))
     = h1 (Some self) \<lparr>req_method = ''GET'', url = ''/b'', headers = hs, query = q, params = ps, body = None\<rparr> s
   \<and> (case Queue_run fixUrl (Queue base ''Users'') self
           (Path match fixUrl ''all'' (Literal ''/b'') ''Users'' h2
             (Path match fixUrl ''get'' (Literal ''/a'') ''Users'' h1 Map.empty))
           \<lparr>req_method = ''GET'', url = ''/b'', headers = hs, query = q, params = ps, body = None\<rparr> s
    of (r, paths', s') \<Rightarrow> (r, s'))
     = h1 (Some self) \<lparr>req_method = ''GET'', url = ''/b'', headers = hs, query = q, params = ps, body = None\<rparr> s
   \<and> (case Queue_run fixUrl (Queue base ''Users'') self
           (Path match fixUrl ''get'' (Literal ''/a'') ''Users'' h1 Map.empty)
           \<lparr>req_method = ''GET'', url = ''/b'', headers = hs, query = q, params = ps, body = None\<rparr> s
    of (r, paths', s') \<Rightarrow> (r, s'))
     = h1 (Some self) \<lparr>req_method = ''GET'', url = ''/b'', headers = hs, query = q, params = ps, body = None\<rparr> s"
  by (simp add: Queue_run_def Queue_target_def Queue_find_def Queue_def Path_def toLocaleUpperCase_def
      upper_char_def literal_check_accepts split: prod.splits)
section \<open>The base url of Queue\<close>

declare strip_slashes.simps [simp del]

lemma strip_slashes_last:
  "strip_slashes b = [] \<or> last (strip_slashes b) \<noteq> CHR ''/''"
proof (induction b rule: strip_slashes.induct)
  case (1 b)
  show ?case
  proof (cases "b \<noteq> [] \<and> last b = CHR ''/''")
    case True
    with "1.IH" show ?thesis by (subst (1 2) strip_slashes.simps) simp
  next
    case False
    then show ?thesis by (subst (1 2) strip_slashes.simps) auto
  qed
qed

lemma strip_slashes_hd:
  "strip_slashes b \<noteq> [] \<Longrightarrow> hd (strip_slashes b) = hd b"
proof (induction b rule: strip_slashes.induct)
  case (1 b)
  show ?case
  proof (cases "b \<noteq> [] \<and> last b = CHR ''/''")
    case True
    then have eq: "strip_slashes b = strip_slashes (butlast b)"
      by (subst strip_slashes.simps) simp
    with "1.prems" have ne: "strip_slashes (butlast b) \<noteq> []" by simp
    have "butlast b \<noteq> []"
    proof
      assume "butlast b = []"
      then have "strip_slashes (butlast b) = []" by (subst strip_slashes.simps) simp
      with ne show False by simp
    qed
    then have "hd (butlast b) = hd b" by (cases b) auto
    with "1.IH" [OF True ne] eq show ?thesis by simp
  next
    case False
    then show ?thesis by (subst strip_slashes.simps) auto
  qed
qed

text \<open>
  C10. \<open>Queue\<close> repairs the base url: what it keeps is empty, or starts with \<open>/\<close> and does
  not end with \<open>/\<close>. Neither \<open>find\<close> nor \<open>run\<close> reads it: the same class wrapped with two
  base urls finds the same pair and gives the same outcome on every request, table and
  state.
\<close>

theorem Queue_base_url_unused:
  "Queue_run fixUrl (Queue b1 c) self paths data s = Queue_run fixUrl (Queue b2 c) self paths data s
   \<and> Queue_find fixUrl (Queue b1 c) paths data s = Queue_find fixUrl (Queue b2 c) paths data s
   \<and> (baseUrl (Queue b1 c) = []
        \<or> (hd (baseUrl (Queue b1 c)) = CHR ''/'' \<and> last (baseUrl (Queue b1 c)) \<noteq> CHR ''/''))"
proof (intro conjI)
  have ff: "Queue_find fixUrl (Queue b1 c) = (Queue_find fixUrl (Queue b2 c)
              :: ('i, 'a) paths \<Rightarrow> request \<Rightarrow> 'a \<Rightarrow> (failure + ('i, 'a) route option) \<times> ('i, 'a) paths \<times> 'a)"
    by (intro ext) (simp add: Queue_find_def Queue_def Let_def split: option.splits)
  show "Queue_find fixUrl (Queue b1 c) paths data s = Queue_find fixUrl (Queue b2 c) paths data s"
    by (simp only: ff)
  show "Queue_run fixUrl (Queue b1 c) self paths data s = Queue_run fixUrl (Queue b2 c) self paths data s"
    unfolding Queue_run_def Queue_target_def ff by (rule refl)
  show "baseUrl (Queue b1 c) = []
        \<or> (hd (baseUrl (Queue b1 c)) = CHR ''/'' \<and> last (baseUrl (Queue b1 c)) \<noteq> CHR ''/'')"
  proof (cases "b1 = []")
    case True
    then show ?thesis by (simp add: Queue_def fix_baseUrl_def)
  next
    case False
    define b where "b = (if hd b1 \<noteq> CHR ''/'' then CHR ''/'' # b1 else b1)"
    with False have hd: "hd b = CHR ''/''" by auto
    from False b_def have fb: "baseUrl (Queue b1 c) = strip_slashes b"
      by (simp add: Queue_def fix_baseUrl_def)
    from strip_slashes_last [of b] strip_slashes_hd [of b] hd fb show ?thesis by auto
  qed
qed

theorem Queue_base_url_unused_witness:
  "baseUrl (Queue ''api/v1//'' ''Users'') = ''/api/v1''
   \<and> baseUrl (Queue ''/'' ''Users'') = ''''
   \<and> Queue_run id (Queue ''api/v1//'' ''Users'') ()
        [''Users'' \<mapsto> [''GET'' \<mapsto> [((\<lambda>d s. (Inr (url d = ''/users''), s)),
                                     (\<lambda>this d s. (Inr \<lparr>statusCode = 200, elapsed = None, result = Some ''list'', cache = None\<rparr>, Suc s)))]]]
        \<lparr>req_method = ''GET'', url = ''/users'', headers = [], query = [], params = [], body = None\<rparr> (0::nat)
     = Queue_run id (Queue ''other'' ''Users'') ()
        [''Users'' \<mapsto> [''GET'' \<mapsto> [((\<lambda>d s. (Inr (url d = ''/users''), s)),
                                     (\<lambda>this d s. (Inr \<lparr>statusCode = 200, elapsed = None, result = Some ''list'', cache = None\<rparr>, Suc s)))]]]
        \<lparr>req_method = ''GET'', url = ''/users'', headers = [], query = [], params = [], body = None\<rparr> 0"
proof -
  let ?paths = "[''Users'' \<mapsto> [''GET'' \<mapsto> [((\<lambda>d s. (Inr (url d = ''/users''), s)),
                                     (\<lambda>this d s. (Inr \<lparr>statusCode = 200, elapsed = None, result = Some ''list'', cache = None\<rparr>, Suc s)))]]]"
  let ?data = "\<lparr>req_method = ''GET'', url = ''/users'', headers = [], query = [], params = [], body = None\<rparr>"
  have a: "strip_slashes ''/api/v1//'' = ''/api/v1''" by code_simp
  have b: "strip_slashes ''/'' = ''''" by code_simp
  have c: "baseUrl (Queue ''api/v1//'' ''Users'') = ''/api/v1''"
    by (simp add: Queue_def fix_baseUrl_def a)
  have d: "baseUrl (Queue ''/'' ''Users'') = ''''"
    by (simp add: Queue_def fix_baseUrl_def b)
  from Queue_base_url_unused [where fixUrl = id and ?b1.0 = "''api/v1//''" and c = "''Users''"
      and self = "()" and paths = ?paths and data = ?data and s = "0::nat" and ?b2.0 = "''other''"]
  have "Queue_run id (Queue ''api/v1//'' ''Users'') () ?paths ?data (0::nat)
          = Queue_run id (Queue ''other'' ''Users'') () ?paths ?data 0"
    by (rule conjunct1)
  with c d show ?thesis by blast
qed
section \<open>Properties of the dependency registry\<close>







section \<open>Properties of inTransaction\<close>

text \<open>
  What \<open>inTransaction\<close> does while the rollback it asks for succeeds. Without a
  transaction from the caller, one is started; when the callback succeeds it is committed
  in the state the callback left and the callback's value is returned (the failure of the
  commit, when it fails); when the callback fails it is rolled back in the state the
  callback left and the wrapped error is raised from the state after the rollback, with
  no commit. With a transaction from the caller, the outcome is the callback's (its error
  wrapped), from the state the callback left, and is the same whatever the three storage
  operations would do: none of them is called.
\<close>

lemma inTransaction_own_success:
  "transaction db s = (Inr t, s0) \<Longrightarrow> callback t s0 = (Inr v, s1) \<Longrightarrow>
   inTransaction db wrap callback None s =
     (case commit db t s1 of
        (Inl e, s2) \<Rightarrow> (Inl e, s2)
      | (Inr u, s2) \<Rightarrow> (Inr v, s2))"
  by (auto simp: inTransaction_def inTransaction_try_def split: prod.splits sum.splits)

lemma inTransaction_own_failure:
  "transaction db s = (Inr t, s0) \<Longrightarrow> callback t s0 = (Inl e, s1) \<Longrightarrow>
   rollback db t s1 = (Inr (), s2) \<Longrightarrow>
   inTransaction db wrap callback None s = (Inl (wrap ''inTransaction'' e), s2)"
  by (simp add: inTransaction_def inTransaction_try_def)

lemma inTransaction_callers:
  "inTransaction db wrap callback (Some t') s =
     (case callback t' s of
        (Inr v, s1) \<Rightarrow> (Inr v, s1)
      | (Inl e, s1) \<Rightarrow> (Inl (wrap ''inTransaction'' e), s1))"
  by (auto simp: inTransaction_def inTransaction_try_def split: prod.splits sum.splits)

lemma inTransaction_callers_untouched:
  "inTransaction db wrap callback (Some t') s = inTransaction db' wrap callback (Some t') s"
  by (simp add: inTransaction_callers)

text \<open>
  What it does when the rollback fails: the flag \<open>rollback\<close> is still unset when the
  \<open>finally\<close> block runs, so the transaction of the failed callback is committed, and the
  error raised is the rollback's, or the commit's when that fails too; the callback's is
  lost.
\<close>

lemma inTransaction_own_failure_rollback_fails:
  "transaction db s = (Inr t, s0) \<Longrightarrow> callback t s0 = (Inl e, s1) \<Longrightarrow>
   rollback db t s1 = (Inl e', s2) \<Longrightarrow>
   inTransaction db wrap callback None s =
     (case commit db t s2 of
        (Inl e'', s3) \<Rightarrow> (Inl e'', s3)
      | (Inr u, s3) \<Rightarrow> (Inl e', s3))"
  by (simp add: inTransaction_def inTransaction_try_def)

text \<open>
  C8, at the input where the code leaves the claim. The storage layer logs the
  operations it is asked for; its rollback fails. No transaction is passed in and the
  callback fails with \<open>boom\<close>: the transaction is started, the callback runs, the
  rollback is attempted, and then the transaction is committed; the error that leaves
  \<open>inTransaction\<close> is the rollback's, whatever \<open>MyException.throw\<close> makes of the
  callback's.
\<close>

theorem inTransaction_commits_after_failed_rollback:
  "inTransaction
      \<lparr>transaction = (\<lambda>s. (Inr 1, s @ [''BEGIN''])),
       commit = (\<lambda>t s. (Inr (), s @ [''COMMIT''])),
       rollback = (\<lambda>t s. (Inl (Failure None ''connection lost'' None), s @ [''ROLLBACK'']))\<rparr>
      wrap
      (\<lambda>t s. (Inl (Failure None ''boom'' None) :: failure + nat, s @ [''work''])) None []
     = (Inl (Failure None ''connection lost'' None), [''BEGIN'', ''work'', ''ROLLBACK'', ''COMMIT''])"
  by (simp add: inTransaction_def inTransaction_try_def)

section \<open>Properties of the wait with a timeout\<close>

lemma wait_step_ignored:
  "\<not> concerns (job_id st) ev \<Longrightarrow> wait_step st ev = st"
  by (cases ev) simp_all

lemma wait_step_settled:
  "\<not> on_succeeded st \<Longrightarrow> \<not> on_failed st \<Longrightarrow> \<not> timer_armed st \<Longrightarrow> wait_step st ev = st"
  by (cases ev) simp_all

lemma foldl_wait_step_settled:
  "\<not> on_succeeded st \<Longrightarrow> \<not> on_failed st \<Longrightarrow> \<not> timer_armed st \<Longrightarrow>
   foldl wait_step st evs = st"
  by (induction evs) (simp_all add: wait_step_settled)

lemma foldl_wait_step_ignored:
  "\<forall>ev \<in> set evs. \<not> concerns (job_id st) ev \<Longrightarrow> foldl wait_step st evs = st"
  by (induction evs) (simp_all add: wait_step_ignored)

lemma wait_step_first:
  "concerns job ev \<Longrightarrow>
   wait_step (wait_start job) ev
     = \<lparr>job_id = job, on_succeeded = False, on_failed = False, timer_armed = False,
        resolutions = [outcome_of ev]\<rparr>"
  by (cases ev) (simp_all add: wait_start_def settle_def)

lemma wait_run_first:
  assumes "\<forall>ev \<in> set before. \<not> concerns job ev" and "concerns job ev"
  shows "wait_run job (before @ ev # after)
           = \<lparr>job_id = job, on_succeeded = False, on_failed = False, timer_armed = False,
              resolutions = [outcome_of ev]\<rparr>"
proof -
  have j: "job_id (wait_start job) = job" by (simp add: wait_start_def)
  from assms(1) j have "foldl wait_step (wait_start job) before = wait_start job"
    by (simp add: foldl_wait_step_ignored)
  then have "wait_run job (before @ ev # after)
               = foldl wait_step (wait_step (wait_start job) ev) after"
    by (simp add: wait_run_def)
  also from assms(2) have "\<dots> = foldl wait_step
      \<lparr>job_id = job, on_succeeded = False, on_failed = False, timer_armed = False,
       resolutions = [outcome_of ev]\<rparr> after"
    by (simp add: wait_step_first)
  also have "\<dots> = \<lparr>job_id = job, on_succeeded = False, on_failed = False, timer_armed = False,
       resolutions = [outcome_of ev]\<rparr>"
    by (simp add: foldl_wait_step_settled)
  finally show ?thesis .
qed

lemma wait_run_pending:
  assumes "\<forall>ev \<in> set signals. \<not> concerns job ev"
  shows "wait_run job signals = wait_start job"
proof -
  have "job_id (wait_start job) = job" by (simp add: wait_start_def)
  with assms show ?thesis by (simp add: wait_run_def foldl_wait_step_ignored)
qed

lemma first_concerning:
  "\<exists>ev \<in> set signals. concerns job ev \<Longrightarrow>
   \<exists>before ev after. signals = before @ ev # after
      \<and> (\<forall>x \<in> set before. \<not> concerns job x) \<and> concerns job ev"
proof (induction signals)
  case Nil
  then show ?case by simp
next
  case (Cons a signals)
  show ?case
  proof (cases "concerns job a")
    case True
    then have "a # signals = [] @ a # signals \<and> (\<forall>x \<in> set []. \<not> concerns job x) \<and> concerns job a"
      by simp
    then show ?thesis by blast
  next
    case False
    with Cons.prems have "\<exists>ev \<in> set signals. concerns job ev" by auto
    from Cons.IH [OF this] obtain before ev after
      where "signals = before @ ev # after" "\<forall>x \<in> set before. \<not> concerns job x" "concerns job ev"
      by blast
    with False have "a # signals = (a # before) @ ev # after
        \<and> (\<forall>x \<in> set (a # before). \<not> concerns job x) \<and> concerns job ev" by simp
    then show ?thesis by blast
  qed
qed

text \<open>
  C4. Of the signals that reach a wait, the first that concerns it (the success or the
  failure of its own job, or its timer) settles it with the outcome that signal stands
  for, and leaves both listeners and the timer detached; whatever arrives after that,
  a completion after the timeout included, changes nothing. A wait is settled at most
  once, and it is settled as soon as its timer has fired. Until a signal concerns it, the
  wait stays as it started.
\<close>

theorem wait_settles_once:
  "((\<forall>x \<in> set before. \<not> concerns job x) \<and> concerns job ev \<longrightarrow>
      wait_run job (before @ ev # after)
        = \<lparr>job_id = job, on_succeeded = False, on_failed = False, timer_armed = False,
           resolutions = [outcome_of ev]\<rparr>)
   \<and> ((\<forall>x \<in> set signals. \<not> concerns job x) \<longrightarrow> wait_run job signals = wait_start job)
   \<and> length (resolutions (wait_run job signals)) \<le> 1
   \<and> (TimerFired \<in> set signals \<longrightarrow> length (resolutions (wait_run job signals)) = 1)
   \<and> outcome_of (JobSucceeded job r) = Inr r
   \<and> outcome_of (JobFailed job code msg) = Inl (Failure (Some code) msg None)
   \<and> outcome_of TimerFired = Inl (Failure (Some 504) ''Gateway Timeout'' None)"
proof (intro conjI impI)
  assume "(\<forall>x \<in> set before. \<not> concerns job x) \<and> concerns job ev"
  then show "wait_run job (before @ ev # after)
        = \<lparr>job_id = job, on_succeeded = False, on_failed = False, timer_armed = False,
           resolutions = [outcome_of ev]\<rparr>"
    by (simp add: wait_run_first)
next
  assume "\<forall>x \<in> set signals. \<not> concerns job x"
  then show "wait_run job signals = wait_start job" by (rule wait_run_pending)
next
  show "length (resolutions (wait_run job signals)) \<le> 1"
  proof (cases "\<exists>ev \<in> set signals. concerns job ev")
    case True
    from first_concerning [OF True] obtain before ev after
      where "signals = before @ ev # after" "\<forall>x \<in> set before. \<not> concerns job x" "concerns job ev"
      by blast
    then show ?thesis by (simp add: wait_run_first)
  next
    case False
    then show ?thesis by (simp add: wait_run_pending wait_start_def)
  qed
next
  assume "TimerFired \<in> set signals"
  then have "\<exists>ev \<in> set signals. concerns job ev" by (rule bexI [rotated]) simp
  from first_concerning [OF this] obtain before ev after
    where "signals = before @ ev # after" "\<forall>x \<in> set before. \<not> concerns job x" "concerns job ev"
    by blast
  then show "length (resolutions (wait_run job signals)) = 1" by (simp add: wait_run_first)
qed (simp_all add: GatewayTimeout_def)

theorem wait_settles_once_witness:
  "wait_run 7 [JobSucceeded 3 \<lparr>statusCode = 200, elapsed = None, result = Some ''other'', cache = None\<rparr>,
               TimerFired,
               JobSucceeded 7 \<lparr>statusCode = 200, elapsed = None, result = Some ''late'', cache = None\<rparr>]
     = \<lparr>job_id = 7, on_succeeded = False, on_failed = False, timer_armed = False,
        resolutions = [Inl (Failure (Some 504) ''Gateway Timeout'' None)]\<rparr>
   \<and> wait_run 7 [JobSucceeded 7 \<lparr>statusCode = 200, elapsed = None, result = Some ''done'', cache = None\<rparr>,
                 TimerFired]
     = \<lparr>job_id = 7, on_succeeded = False, on_failed = False, timer_armed = False,
        resolutions = [Inr \<lparr>statusCode = 200, elapsed = None, result = Some ''done'', cache = None\<rparr>]\<rparr>
   \<and> wait_run 7 [JobSucceeded 3 \<lparr>statusCode = 200, elapsed = None, result = Some ''other'', cache = None\<rparr>]
     = wait_start 7"
proof -
  let ?other = "JobSucceeded 3 \<lparr>statusCode = 200, elapsed = None, result = Some ''other'', cache = None\<rparr>"
  let ?late = "JobSucceeded 7 \<lparr>statusCode = 200, elapsed = None, result = Some ''late'', cache = None\<rparr>"
  let ?done = "JobSucceeded 7 \<lparr>statusCode = 200, elapsed = None, result = Some ''done'', cache = None\<rparr>"
  have h1: "(\<forall>x \<in> set [?other]. \<not> concerns 7 x) \<and> concerns 7 TimerFired" by simp
  have h2: "(\<forall>x \<in> set []. \<not> concerns 7 x) \<and> concerns 7 ?done" by simp
  have h3: "\<forall>x \<in> set [?other]. \<not> concerns 7 x" by simp
  from wait_settles_once [where before = "[?other]" and job = 7 and ev = TimerFired
      and after = "[?late]", THEN conjunct1, THEN mp, OF h1]
  have a: "wait_run 7 [?other, TimerFired, ?late]
     = \<lparr>job_id = 7, on_succeeded = False, on_failed = False, timer_armed = False,
        resolutions = [Inl (Failure (Some 504) ''Gateway Timeout'' None)]\<rparr>"
    by (simp add: GatewayTimeout_def)
  from wait_settles_once [where before = "[]" and job = 7 and ev = ?done
      and after = "[TimerFired]", THEN conjunct1, THEN mp, OF h2]
  have b: "wait_run 7 [?done, TimerFired]
     = \<lparr>job_id = 7, on_succeeded = False, on_failed = False, timer_armed = False,
        resolutions = [Inr \<lparr>statusCode = 200, elapsed = None, result = Some ''done'', cache = None\<rparr>]\<rparr>"
    by simp
  from wait_settles_once [where signals = "[?other]" and job = 7,
      THEN conjunct2, THEN conjunct1, THEN mp, OF h3]
  have c: "wait_run 7 [?other] = wait_start 7" .
  from a b c show ?thesis by simp
qed
section \<open>Properties of the dispatcher: which entry is taken\<close>

lemma reply_status_valid:
  "100 \<le> code \<Longrightarrow> code \<le> 599 \<Longrightarrow> reply_status env rep code = Inr (rep\<lparr>status := code\<rparr>)"
  by (simp add: reply_status_def)

lemma mapper_loop_skip:
  "\<forall>m \<in> set before. passed_over env req p m \<Longrightarrow>
   mapper_loop env config req p start (before @ rest) rep w
     = mapper_loop env config req p start rest rep w"
  by (induction before) (auto simp: passed_over_def entry_matches_def Let_def)

lemma mapper_loop_hit:
  "entry_matches env req p e \<Longrightarrow>
   mapper_loop env config req p start (e # after) rep w
     = forward env config req start e (toLocaleUpperCase (req_method req)) rep w"
  by (auto simp: entry_matches_def Let_def split: option.splits)

lemma mapper_loop_no_method:
  "map_method e = None \<Longrightarrow>
   mapper_loop env config req p start (e # after) rep w
     = (Inl (reading_undefined ''toLocaleUpperCase''), rep, w)"
  by (simp add: Let_def)

lemma mapper_loop_first:
  "\<forall>m \<in> set before. passed_over env req p m \<Longrightarrow> entry_matches env req p e \<Longrightarrow>
   mapper_loop env config req p start (before @ e # after) rep w
     = forward env config req start e (toLocaleUpperCase (req_method req)) rep w"
proof -
  assume b: "\<forall>m \<in> set before. passed_over env req p m" and e: "entry_matches env req p e"
  from b have "mapper_loop env config req p start (before @ e # after) rep w
                 = mapper_loop env config req p start (e # after) rep w"
    by (rule mapper_loop_skip)
  also from e have "\<dots> = forward env config req start e (toLocaleUpperCase (req_method req)) rep w"
    by (rule mapper_loop_hit)
  finally show ?thesis .
qed

lemma mapper_loop_first_no_method:
  "\<forall>m \<in> set before. passed_over env req p m \<Longrightarrow> map_method e = None \<Longrightarrow>
   mapper_loop env config req p start (before @ e # after) rep w
     = (Inl (reading_undefined ''toLocaleUpperCase''), rep, w)"
proof -
  assume b: "\<forall>m \<in> set before. passed_over env req p m" and e: "map_method e = None"
  from b have "mapper_loop env config req p start (before @ e # after) rep w
                 = mapper_loop env config req p start (e # after) rep w"
    by (rule mapper_loop_skip)
  also from e have "\<dots> = (Inl (reading_undefined ''toLocaleUpperCase''), rep, w)"
    by (rule mapper_loop_no_method)
  finally show ?thesis .
qed

lemma mapper_loop_none:
  "\<forall>m \<in> set mapper. passed_over env req p m \<Longrightarrow>
   mapper_loop env config req p start mapper rep w = (Inl NotFound, rep\<lparr>status := 404\<rparr>, w)"
  using mapper_loop_skip [of mapper env req p config start "[]" rep w]
  by (simp add: reply_status_def)

lemma split_first:
  "\<exists>m \<in> set mapper. P m \<Longrightarrow>
   \<exists>before e after. mapper = before @ e # after \<and> (\<forall>m \<in> set before. \<not> P m) \<and> P e"
proof (induction mapper)
  case Nil
  then show ?case by simp
next
  case (Cons a mapper)
  show ?case
  proof (cases "P a")
    case True
    then have "a # mapper = [] @ a # mapper \<and> (\<forall>m \<in> set []. \<not> P m) \<and> P a" by simp
    then show ?thesis by blast
  next
    case False
    with Cons.prems have "\<exists>m \<in> set mapper. P m" by auto
    from Cons.IH [OF this] obtain before e after
      where "mapper = before @ e # after" "\<forall>m \<in> set before. \<not> P m" "P e" by blast
    with False have "a # mapper = (a # before) @ e # after
        \<and> (\<forall>m \<in> set (a # before). \<not> P m) \<and> P e" by simp
    then show ?thesis by blast
  qed
qed

lemma mapper_loop_append:
  assumes "\<exists>m \<in> set mapper. entry_matches env req p m \<or> map_method m = None"
  shows "mapper_loop env config req p start (mapper @ appended) rep w
           = mapper_loop env config req p start mapper rep w"
proof -
  from split_first [OF assms] obtain before e after
    where m: "mapper = before @ e # after"
      and b: "\<forall>m \<in> set before. \<not> (entry_matches env req p m \<or> map_method m = None)"
      and e: "entry_matches env req p e \<or> map_method e = None" by blast
  from b have b': "\<forall>m \<in> set before. passed_over env req p m"
    by (simp add: passed_over_def)
  from m have a: "mapper @ appended = before @ e # (after @ appended)" by simp
  from e show ?thesis
  proof
    assume "entry_matches env req p e"
    from mapper_loop_first [OF b' this] m a show ?thesis by simp
  next
    assume "map_method e = None"
    from mapper_loop_first_no_method [OF b' this] m a show ?thesis by simp
  qed
qed

text \<open>
  The handler run on the broker that keeps what it is given: the entries it tests and
  passes over are the same, and the list is written by \<open>save\<close> alone.
\<close>

lemma recording_simps [simp]:
  "pathname (recording env) = pathname env"
  "matchPath (recording env) = matchPath env"
  "applyCache (recording env) = applyCache env"
  "bad_status_code (recording env) = bad_status_code env"
  "now (recording env) (w, jobs) = now env w"
  "save (recording env) key data (w, jobs)
     = (case save env key data w of (r, w') \<Rightarrow> (r, (w', jobs @ [(key, data)])))"
  "wait (recording env) key job t (w, jobs)
     = (case wait env key job t w of (r, w') \<Rightarrow> (r, (w', jobs)))"
  by (simp_all add: recording_def)

lemma recording_entry_simps [simp]:
  "map_method (recording_entry m) = map_method m"
  "path (recording_entry m) = path m"
  "queue (recording_entry m) = queue m"
  "pre (recording_entry m) = map_option
      (\<lambda>f req data (w, jobs). case f req data w of (r, w') \<Rightarrow> (r, (w', jobs))) (pre m)"
  "post (recording_entry m) = map_option
      (\<lambda>g req rep res (w, jobs).
         case g req rep res w of (e, rep', res', w') \<Rightarrow> (e, rep', res', (w', jobs))) (post m)"
  by (simp_all add: recording_entry_def)

lemma reply_status_recording [simp]:
  "reply_status (recording env) rep code = reply_status env rep code"
  by (simp add: reply_status_def)

lemma entry_matches_recording [simp]:
  "entry_matches (recording env) req p (recording_entry m) = entry_matches env req p m"
  by (simp add: entry_matches_def split: option.splits)

lemma passed_over_recording [simp]:
  "passed_over (recording env) req p (recording_entry m) = passed_over env req p m"
  by (simp add: passed_over_def)

lemma respond_recording:
  "respond (recording env) req start (recording_entry m) rep res (w, jobs)
     = (case respond env req start m rep res w of (r, rep', w') \<Rightarrow> (r, rep', (w', jobs)))"
proof (cases "reply_status env rep (statusCode res)")
  case (Inl e)
  then show ?thesis by (simp add: respond_def)
next
  case (Inr rep1)
  show ?thesis
  proof (cases "post m")
    case None
    with Inr show ?thesis
      by (simp add: respond_def split: option.splits)
  next
    case (Some g)
    obtain e rep2 res2 w4 where g: "g req rep1 res w = (e, rep2, res2, w4)"
      by (cases "g req rep1 res w") auto
    with Inr Some show ?thesis
      by (cases e) (simp_all add: respond_def split: option.splits)
  qed
qed

lemma submit_recording:
  "submit (recording env) config req start (recording_entry m) rep data (w, jobs)
     = (case submit env config req start m rep data w of
          (r, rep', w') \<Rightarrow> (r, rep', (w', jobs @ [(queue m, data)])))"
proof -
  obtain r1 w2 where s: "save env (queue m) data w = (r1, w2)"
    by (cases "save env (queue m) data w")
  show ?thesis
  proof (cases r1)
    case (Inl e)
    with s show ?thesis by (simp add: submit_def)
  next
    case (Inr job)
    obtain r2 w3 where t: "wait env (queue m) job (timeout_or_default config) w2 = (r2, w3)"
      by (cases "wait env (queue m) job (timeout_or_default config) w2")
    with s Inr show ?thesis
      by (cases r2) (simp_all add: submit_def respond_recording)
  qed
qed

lemma forward_recording_no_pre:
  "pre e = None \<Longrightarrow>
   forward (recording env) config req start (recording_entry e) M rep (w, jobs)
     = (case forward env config req start e M rep w of
          (r, rep', w') \<Rightarrow>
            (r, rep', (w', jobs @
               [(queue e, \<lparr>req_method = M, url = url req, headers = headers req,
                            query = query req, params = params req,
                            body = (if M \<in> set [''POST'', ''PUT'', ''PATCH''] then body req else None)\<rparr>)])))"
  by (simp add: forward_def Let_def submit_recording)

lemma forward_recording_pre:
  "pre e = Some f \<Longrightarrow>
   f req \<lparr>req_method = M, url = url req, headers = headers req, query = query req,
          params = params req, body = None\<rparr> w = (Inr data1, w1) \<Longrightarrow>
   forward (recording env) config req start (recording_entry e) M rep (w, jobs)
     = (case forward env config req start e M rep w of
          (r, rep', w') \<Rightarrow>
            (r, rep', (w', jobs @
               [(queue e, if M \<in> set [''POST'', ''PUT'', ''PATCH'']
                          then data1\<lparr>body := body req\<rparr> else data1)])))"
  by (simp add: forward_def Let_def submit_recording)

lemma forward_recording_pre_throws:
  "pre e = Some f \<Longrightarrow>
   f req \<lparr>req_method = M, url = url req, headers = headers req, query = query req,
          params = params req, body = None\<rparr> w = (Inl err, w1) \<Longrightarrow>
   forward (recording env) config req start (recording_entry e) M rep (w, jobs)
     = (case forward env config req start e M rep w of
          (r, rep', w') \<Rightarrow> (r, rep', (w', jobs)))"
  by (simp add: forward_def Let_def)

lemma dispatcher_jobs_saved:
  "jobs_saved (dispatcher env config mapper req rep w)
     = jobs_saved (dispatcher_try env config mapper req (now env w)
         (case config_cache config of Some c \<Rightarrow> applyCache env rep c | None \<Rightarrow> rep) w)"
proof -
  obtain r rep1 w1 where t: "dispatcher_try env config mapper req (now env w)
         (case config_cache config of Some c \<Rightarrow> applyCache env rep c | None \<Rightarrow> rep) w
         = (r, rep1, w1)"
    by (metis prod_cases3)
  then show ?thesis
    by (cases r) (simp_all add: dispatcher_def jobs_saved_def Let_def split: sum.splits)
qed

lemma jobs_saved_case:
  "jobs_saved (case x of (r, rep', w') \<Rightarrow> (r, rep', (w', jobs))) = jobs"
  by (cases x) (simp add: jobs_saved_def)

lemma forget_jobs_case:
  "forget_jobs (case x of (r, rep', w') \<Rightarrow> (r, rep', (w', jobs))) = x"
  by (cases x) (simp add: forget_jobs_def)

lemma forward_recording:
  "forget_jobs (forward (recording env) config req start (recording_entry e) M rep (w, jobs))
     = forward env config req start e M rep w"
proof (cases "pre e")
  case None
  then show ?thesis by (simp only: forward_recording_no_pre forget_jobs_case)
next
  case (Some f)
  obtain r w1 where f: "f req \<lparr>req_method = M, url = url req, headers = headers req,
      query = query req, params = params req, body = None\<rparr> w = (r, w1)"
    by (cases "f req \<lparr>req_method = M, url = url req, headers = headers req,
      query = query req, params = params req, body = None\<rparr> w")
  show ?thesis
  proof (cases r)
    case (Inl err)
    with f have "f req \<lparr>req_method = M, url = url req, headers = headers req,
      query = query req, params = params req, body = None\<rparr> w = (Inl err, w1)" by simp
    from forward_recording_pre_throws [OF Some this] show ?thesis
      by (simp only: forget_jobs_case)
  next
    case (Inr data1)
    with f have "f req \<lparr>req_method = M, url = url req, headers = headers req,
      query = query req, params = params req, body = None\<rparr> w = (Inr data1, w1)" by simp
    from forward_recording_pre [OF Some this] show ?thesis
      by (simp only: forget_jobs_case)
  qed
qed

lemma mapper_loop_recording:
  "forget_jobs (mapper_loop (recording env) config req p start (map recording_entry mapper) rep (w, jobs))
     = mapper_loop env config req p start mapper rep w"
proof (induction mapper)
  case Nil
  show ?case by (simp add: forget_jobs_def split: sum.splits)
next
  case (Cons m mapper)
  show ?case
  proof (cases "map_method m")
    case None
    then show ?thesis by (simp add: forget_jobs_def)
  next
    case (Some meth)
    with Cons show ?thesis by (simp add: Let_def forward_recording)
  qed
qed

lemma dispatcher_try_recording:
  "forget_jobs (dispatcher_try (recording env) config (map recording_entry mapper) req start rep (w, jobs))
     = dispatcher_try env config mapper req start rep w"
  by (cases "pathname env (url req)")
     (simp_all add: dispatcher_try_def mapper_loop_recording, simp add: forget_jobs_def)

lemma dispatcher_recording:
  "forget_jobs (dispatcher (recording env) config (map recording_entry mapper) req rep (w, jobs))
     = dispatcher env config mapper req rep w"
proof -
  let ?rep0 = "case config_cache config of Some c \<Rightarrow> applyCache env rep c | None \<Rightarrow> rep"
  obtain r rep1 w1 j1 where t: "dispatcher_try (recording env) config (map recording_entry mapper)
      req (now env w) ?rep0 (w, jobs) = (r, rep1, (w1, j1))"
    by (metis prod_cases4)
  from dispatcher_try_recording [of env config mapper req "now env w" ?rep0 w jobs] t
  have u: "dispatcher_try env config mapper req (now env w) ?rep0 w = (r, rep1, w1)"
    by (simp add: forget_jobs_def)
  have c: "(case config_cache config of Some c \<Rightarrow> applyCache (recording env) rep c | None \<Rightarrow> rep)
             = ?rep0"
    by (cases "config_cache config") simp_all
  have d: "dispatcher (recording env) config (map recording_entry mapper) req rep (w, jobs)
      = (case (r, rep1, (w1, j1)) of
           (Inr res, rep1, w1) \<Rightarrow> (Inr (ResultEnvelope res), rep1, w1)
         | (Inl e, rep1, w1) \<Rightarrow>
             (case reply_status (recording env) rep1 (statusCode_or_500 e) of
                Inl e' \<Rightarrow> (Inl e', rep1, w1)
              | Inr rep2 \<Rightarrow>
                  (Inr (ErrorEnvelope \<lparr>statusCode = statusCode_or_500 e,
                                       elapsed = Some (now (recording env) w1 - now env w),
                                       error = f_message e, extra = f_extra e\<rparr>),
                   rep2, w1)))"
    unfolding dispatcher_def Let_def c recording_simps t by (rule refl)
  show ?thesis
    unfolding d
    by (cases r) (simp_all add: dispatcher_def u Let_def forget_jobs_def split: sum.splits)
qed

lemma dispatcher_try_recording_first:
  assumes "pathname env (url req) = Inr p"
    and "\<forall>m \<in> set before. passed_over env req p m" and "entry_matches env req p e"
  shows "dispatcher_try (recording env) config (map recording_entry (before @ e # after)) req start rep wj
           = forward (recording env) config req start (recording_entry e)
               (toLocaleUpperCase (req_method req)) rep wj"
proof -
  from assms(2) have b: "\<forall>m \<in> set (map recording_entry before).
      passed_over (recording env) req p m" by simp
  from assms(3) have e: "entry_matches (recording env) req p (recording_entry e)" by simp
  from mapper_loop_first [OF b e] assms(1) show ?thesis
    by (simp add: dispatcher_try_def)
qed

text \<open>
  C1. For a request whose url parses to the path \<open>p\<close>: when every entry before \<open>e\<close> is
  passed over (it has a method and does not match) and \<open>e\<close> matches, the \<open>try\<close> block is
  the forwarding of \<open>e\<close> and the outcome is the one the table holding \<open>e\<close> alone gives,
  whatever entries stand after \<open>e\<close>. On a broker that keeps what it is given, starting
  with none, the jobs the handler has saved are then: the one job on the queue of \<open>e\<close>
  that carries the request with its method upper-cased (as the \<open>pre\<close> hook of \<open>e\<close> left
  it, with the body of a writing request), or none when the \<open>pre\<close> hook throws. Appending
  entries to a table in which the loop stops at an entry changes nothing. When every
  entry is passed over, the response is the 404 envelope and no job is saved. An entry
  without a method stops the loop with a \<open>TypeError\<close>, which the handler answers with 500.
  Keeping the jobs changes nothing else: without the list, the outcome on the broker that
  keeps them is the outcome on the broker.
\<close>

theorem dispatcher_first_match:
  assumes "pathname env (url req) = Inr p"
  shows
    "((\<forall>m \<in> set before. passed_over env req p m) \<and> entry_matches env req p e \<longrightarrow>
        dispatcher_try env config (before @ e # after) req start rep w
          = forward env config req start e (toLocaleUpperCase (req_method req)) rep w
        \<and> dispatcher env config (before @ e # after) req rep w = dispatcher env config [e] req rep w
        \<and> (pre e = None \<longrightarrow>
             jobs_saved (dispatcher (recording env) config (map recording_entry (before @ e # after))
                           req rep (w, []))
               = [(queue e,
                   \<lparr>req_method = toLocaleUpperCase (req_method req), url = url req,
                    headers = headers req, query = query req, params = params req,
                    body = (if toLocaleUpperCase (req_method req) \<in> set [''POST'', ''PUT'', ''PATCH'']
                            then body req else None)\<rparr>)])
        \<and> (pre e = Some f
             \<and> f req \<lparr>req_method = toLocaleUpperCase (req_method req), url = url req,
                       headers = headers req, query = query req, params = params req,
                       body = None\<rparr> w = (Inr data1, w1) \<longrightarrow>
             jobs_saved (dispatcher (recording env) config (map recording_entry (before @ e # after))
                           req rep (w, []))
               = [(queue e,
                   if toLocaleUpperCase (req_method req) \<in> set [''POST'', ''PUT'', ''PATCH'']
                   then data1\<lparr>body := body req\<rparr> else data1)])
        \<and> (pre e = Some f
             \<and> f req \<lparr>req_method = toLocaleUpperCase (req_method req), url = url req,
                       headers = headers req, query = query req, params = params req,
                       body = None\<rparr> w = (Inl err, w1) \<longrightarrow>
             jobs_saved (dispatcher (recording env) config (map recording_entry (before @ e # after))
                           req rep (w, []))
               = []))
     \<and> ((\<exists>m \<in> set mapper. entry_matches env req p m \<or> map_method m = None) \<longrightarrow>
        dispatcher env config (mapper @ appended) req rep w = dispatcher env config mapper req rep w)
     \<and> ((\<forall>m \<in> set mapper. passed_over env req p m) \<longrightarrow>
        fst (dispatcher env config mapper req rep w)
          = Inr (ErrorEnvelope \<lparr>statusCode = 404, elapsed = Some 0, error = ''Not Found'', extra = None\<rparr>)
        \<and> jobs_saved (dispatcher (recording env) config (map recording_entry mapper) req rep (w, []))
            = [])
     \<and> ((\<forall>m \<in> set before. passed_over env req p m) \<and> map_method e = None \<longrightarrow>
        fst (dispatcher env config (before @ e # after) req rep w)
          = Inr (ErrorEnvelope \<lparr>statusCode = 500, elapsed = Some 0,
              error = f_message (reading_undefined ''toLocaleUpperCase''), extra = None\<rparr>)
        \<and> jobs_saved (dispatcher (recording env) config (map recording_entry (before @ e # after))
                        req rep (w, []))
            = [])
     \<and> forget_jobs (dispatcher (recording env) config (map recording_entry mapper) req rep (w, jobs))
         = dispatcher env config mapper req rep w"
proof (intro conjI impI)
  assume a: "(\<forall>m \<in> set before. passed_over env req p m) \<and> entry_matches env req p e"
  then have b: "\<forall>m \<in> set before. passed_over env req p m" and e: "entry_matches env req p e"
    by simp_all
  have t: "dispatcher_try env config (before @ e # after) req start rep w
             = forward env config req start e (toLocaleUpperCase (req_method req)) rep w"
    for start rep
    using assms mapper_loop_first [OF b e] by (simp add: dispatcher_try_def)
  have t1: "dispatcher_try env config [e] req start rep w
             = forward env config req start e (toLocaleUpperCase (req_method req)) rep w"
    for start rep
    using assms mapper_loop_hit [OF e] by (simp add: dispatcher_try_def)
  show "dispatcher_try env config (before @ e # after) req start rep w
          = forward env config req start e (toLocaleUpperCase (req_method req)) rep w"
    by (rule t)
  show "dispatcher env config (before @ e # after) req rep w = dispatcher env config [e] req rep w"
    unfolding dispatcher_def t t1 by (rule refl)
  have s: "jobs_saved (dispatcher (recording env) config (map recording_entry (before @ e # after))
                         req rep (w, []))
             = jobs_saved (forward (recording env) config req (now env w) (recording_entry e)
                 (toLocaleUpperCase (req_method req))
                 (case config_cache config of Some c \<Rightarrow> applyCache env rep c | None \<Rightarrow> rep) (w, []))"
    by (simp only: dispatcher_jobs_saved dispatcher_try_recording_first [OF assms b e]
        recording_simps)
  {
    assume "pre e = None"
    then show "jobs_saved (dispatcher (recording env) config (map recording_entry (before @ e # after))
                           req rep (w, []))
               = [(queue e,
                   \<lparr>req_method = toLocaleUpperCase (req_method req), url = url req,
                    headers = headers req, query = query req, params = params req,
                    body = (if toLocaleUpperCase (req_method req) \<in> set [''POST'', ''PUT'', ''PATCH'']
                            then body req else None)\<rparr>)]"
      by (simp only: s forward_recording_no_pre jobs_saved_case append_Nil)
  }
  {
    assume "pre e = Some f
             \<and> f req \<lparr>req_method = toLocaleUpperCase (req_method req), url = url req,
                       headers = headers req, query = query req, params = params req,
                       body = None\<rparr> w = (Inr data1, w1)"
    then have p1: "pre e = Some f"
      and p2: "f req \<lparr>req_method = toLocaleUpperCase (req_method req), url = url req,
                       headers = headers req, query = query req, params = params req,
                       body = None\<rparr> w = (Inr data1, w1)" by simp_all
    show "jobs_saved (dispatcher (recording env) config (map recording_entry (before @ e # after))
                           req rep (w, []))
               = [(queue e,
                   if toLocaleUpperCase (req_method req) \<in> set [''POST'', ''PUT'', ''PATCH'']
                   then data1\<lparr>body := body req\<rparr> else data1)]"
      by (simp only: s forward_recording_pre [OF p1 p2] jobs_saved_case append_Nil)
  }
  {
    assume "pre e = Some f
             \<and> f req \<lparr>req_method = toLocaleUpperCase (req_method req), url = url req,
                       headers = headers req, query = query req, params = params req,
                       body = None\<rparr> w = (Inl err, w1)"
    then have p1: "pre e = Some f"
      and p2: "f req \<lparr>req_method = toLocaleUpperCase (req_method req), url = url req,
                       headers = headers req, query = query req, params = params req,
                       body = None\<rparr> w = (Inl err, w1)" by simp_all
    show "jobs_saved (dispatcher (recording env) config (map recording_entry (before @ e # after))
                           req rep (w, []))
               = []"
      by (simp only: s forward_recording_pre_throws [OF p1 p2] jobs_saved_case)
  }
next
  assume "\<exists>m \<in> set mapper. entry_matches env req p m \<or> map_method m = None"
  then have "dispatcher_try env config (mapper @ appended) req start rep w
               = dispatcher_try env config mapper req start rep w" for start rep
    using assms by (simp add: dispatcher_try_def mapper_loop_append)
  then show "dispatcher env config (mapper @ appended) req rep w = dispatcher env config mapper req rep w"
    unfolding dispatcher_def by simp
next
  assume n: "\<forall>m \<in> set mapper. passed_over env req p m"
  then have t: "dispatcher_try env config mapper req start rep w
                 = (Inl NotFound, rep\<lparr>status := 404\<rparr>, w)" for start rep
    using assms by (simp add: dispatcher_try_def mapper_loop_none)
  show "fst (dispatcher env config mapper req rep w)
          = Inr (ErrorEnvelope \<lparr>statusCode = 404, elapsed = Some 0, error = ''Not Found'', extra = None\<rparr>)"
    by (simp add: dispatcher_def t Let_def NotFound_def statusCode_or_500_def reply_status_def)
  from n have n': "\<forall>m \<in> set (map recording_entry mapper). passed_over (recording env) req p m"
    by simp
  have r: "dispatcher_try (recording env) config (map recording_entry mapper) req start rep (w, [])
          = (Inl NotFound, rep\<lparr>status := 404\<rparr>, (w, []))" for start rep
    using assms mapper_loop_none [OF n'] by (simp add: dispatcher_try_def)
  show "jobs_saved (dispatcher (recording env) config (map recording_entry mapper) req rep (w, []))
               = []"
    by (subst dispatcher_jobs_saved, subst r) (simp add: jobs_saved_def)
next
  assume a: "(\<forall>m \<in> set before. passed_over env req p m) \<and> map_method e = None"
  then have t: "dispatcher_try env config (before @ e # after) req start rep w
      = (Inl (reading_undefined ''toLocaleUpperCase''), rep, w)" for start rep
    using assms by (simp add: dispatcher_try_def mapper_loop_first_no_method)
  show "fst (dispatcher env config (before @ e # after) req rep w)
          = Inr (ErrorEnvelope \<lparr>statusCode = 500, elapsed = Some 0,
              error = f_message (reading_undefined ''toLocaleUpperCase''), extra = None\<rparr>)"
    by (simp add: dispatcher_def t Let_def reading_undefined_def TypeError_def
        statusCode_or_500_def reply_status_def)
  from a have b': "\<forall>m \<in> set (map recording_entry before). passed_over (recording env) req p m"
    and e': "map_method (recording_entry e) = None" by simp_all
  have r: "dispatcher_try (recording env) config (map recording_entry (before @ e # after)) req start rep (w, [])
          = (Inl (reading_undefined ''toLocaleUpperCase''), rep, (w, []))" for start rep
    using assms mapper_loop_first_no_method [OF b' e'] by (simp add: dispatcher_try_def)
  show "jobs_saved (dispatcher (recording env) config (map recording_entry (before @ e # after))
                           req rep (w, []))
               = []"
    by (subst dispatcher_jobs_saved, subst r) (simp add: jobs_saved_def)
next
  show "forget_jobs (dispatcher (recording env) config (map recording_entry mapper) req rep (w, jobs))
          = dispatcher env config mapper req rep w"
    by (rule dispatcher_recording)
qed

text \<open>
  An instance of C1 in the example world: a \<open>GET\<close> of \<open>/users\<close> on a table of three
  entries, of which the second and the third match; a path that no entry matches; and a
  table whose second entry has no method.
\<close>

theorem dispatcher_first_match_witness:
  "fst (dispatcher example_env example_config
     [example_entry ''GET'' ''/orders'' ''orders'', example_entry ''get'' ''/users'' ''users'',
      example_entry ''ALL'' ''/users'' ''audit'']
     (example_request ''GET'' ''/users'') example_reply 0)
     = Inr (ResultEnvelope \<lparr>statusCode = 200, elapsed = Some 50, result = Some ''done'', cache = None\<rparr>)
   \<and> jobs_saved (dispatcher (recording example_env) example_config
       (map recording_entry
          ([example_entry ''GET'' ''/orders'' ''orders''] @ example_entry ''get'' ''/users'' ''users''
             # [example_entry ''ALL'' ''/users'' ''audit'']))
       (example_request ''GET'' ''/users'') example_reply (0, []))
     = [(''users'', \<lparr>req_method = ''GET'', url = ''/users'', headers = ''{}'', query = ''{}'',
                     params = ''{}'', body = None\<rparr>)]
   \<and> dispatcher example_env example_config
       ([example_entry ''GET'' ''/orders'' ''orders'', example_entry ''get'' ''/users'' ''users'']
          @ [example_entry ''ALL'' ''/users'' ''audit''])
       (example_request ''GET'' ''/users'') example_reply 0
     = dispatcher example_env example_config
       [example_entry ''GET'' ''/orders'' ''orders'', example_entry ''get'' ''/users'' ''users'']
       (example_request ''GET'' ''/users'') example_reply 0
   \<and> fst (dispatcher example_env example_config
       [example_entry ''GET'' ''/orders'' ''orders'', example_entry ''get'' ''/users'' ''users'']
       (example_request ''GET'' ''/nothing'') example_reply 0)
     = Inr (ErrorEnvelope \<lparr>statusCode = 404, elapsed = Some 0, error = ''Not Found'', extra = None\<rparr>)
   \<and> fst (dispatcher example_env example_config
       ([example_entry ''GET'' ''/orders'' ''orders'']
          @ \<lparr>map_method = None, path = ''/users'', queue = ''users'', pre = None, post = None\<rparr>
          # [example_entry ''get'' ''/users'' ''users''])
       (example_request ''GET'' ''/users'') example_reply 0)
     = Inr (ErrorEnvelope \<lparr>statusCode = 500, elapsed = Some 0,
         error = ''Cannot read properties of undefined (reading 'toLocaleUpperCase')'',
         extra = None\<rparr>)"
proof -
  let ?orders = "example_entry ''GET'' ''/orders'' ''orders''"
  let ?users = "example_entry ''get'' ''/users'' ''users''"
  let ?audit = "example_entry ''ALL'' ''/users'' ''audit''"
  let ?bare = "\<lparr>map_method = None, path = ''/users'', queue = ''users'', pre = None, post = None\<rparr>
                 :: nat IMapper"
  note defs = example_env_def example_entry_def example_request_def example_config_def
    example_reply_def entry_matches_def passed_over_def toLocaleUpperCase_def upper_char_def
  have p: "pathname example_env (url (example_request ''GET'' ''/users'')) = Inr ''/users''"
    by (simp add: defs)
  have skip: "passed_over example_env (example_request ''GET'' ''/users'') ''/users'' ?orders"
    by (simp add: defs)
  have hit: "entry_matches example_env (example_request ''GET'' ''/users'') ''/users'' ?users"
    by (simp add: defs)
  have one: "fst (dispatcher example_env example_config [?users]
               (example_request ''GET'' ''/users'') example_reply 0)
     = Inr (ResultEnvelope \<lparr>statusCode = 200, elapsed = Some 50, result = Some ''done'', cache = None\<rparr>)"
    by (simp add: dispatcher_def dispatcher_try_def forward_def submit_def respond_def
        reply_status_def timeout_or_default_def Let_def defs)
  have hyp1: "(\<forall>m \<in> set [?orders].
        passed_over example_env (example_request ''GET'' ''/users'') ''/users'' m)
      \<and> entry_matches example_env (example_request ''GET'' ''/users'') ''/users'' ?users"
    using skip hit by simp
  have hyp2: "\<exists>m \<in> set [?orders, ?users].
      entry_matches example_env (example_request ''GET'' ''/users'') ''/users'' m
      \<or> map_method m = None"
    using hit by simp
  have hyp4: "(\<forall>m \<in> set [?orders].
        passed_over example_env (example_request ''GET'' ''/users'') ''/users'' m)
      \<and> map_method ?bare = None"
    using skip by simp
  have nopre: "pre ?users = None" by (simp add: example_entry_def)
  note T = dispatcher_first_match [OF p, where before = "[?orders]" and e = ?users
      and after = "[?audit]" and config = example_config and rep = example_reply and w = 0
      and start = 0 and mapper = "[?orders, ?users]" and appended = "[?audit]"]
  from T [THEN conjunct1, THEN mp, OF hyp1, THEN conjunct2, THEN conjunct1] one
  have a: "fst (dispatcher example_env example_config [?orders, ?users, ?audit]
             (example_request ''GET'' ''/users'') example_reply 0)
     = Inr (ResultEnvelope \<lparr>statusCode = 200, elapsed = Some 50, result = Some ''done'', cache = None\<rparr>)"
    by simp
  from T [THEN conjunct1, THEN mp, OF hyp1, THEN conjunct2, THEN conjunct2, THEN conjunct1,
      THEN mp, OF nopre]
  have j: "jobs_saved (dispatcher (recording example_env) example_config
       (map recording_entry ([?orders] @ ?users # [?audit]))
       (example_request ''GET'' ''/users'') example_reply (0, []))
     = [(''users'', \<lparr>req_method = ''GET'', url = ''/users'', headers = ''{}'', query = ''{}'',
                     params = ''{}'', body = None\<rparr>)]"
    by (simp add: example_entry_def example_request_def toLocaleUpperCase_def upper_char_def)
  from T [THEN conjunct2, THEN conjunct1, THEN mp, OF hyp2]
  have b: "dispatcher example_env example_config ([?orders, ?users] @ [?audit])
              (example_request ''GET'' ''/users'') example_reply 0
     = dispatcher example_env example_config [?orders, ?users]
              (example_request ''GET'' ''/users'') example_reply 0" .
  have p': "pathname example_env (url (example_request ''GET'' ''/nothing'')) = Inr ''/nothing''"
    by (simp add: defs)
  have none: "\<forall>m \<in> set [?orders, ?users].
      passed_over example_env (example_request ''GET'' ''/nothing'') ''/nothing'' m"
    by (simp add: defs)
  note T' = dispatcher_first_match [OF p', where mapper = "[?orders, ?users]"
      and config = example_config and rep = example_reply and w = 0]
  from T' [THEN conjunct2, THEN conjunct2, THEN conjunct1, THEN mp, OF none, THEN conjunct1]
  have c: "fst (dispatcher example_env example_config [?orders, ?users]
                  (example_request ''GET'' ''/nothing'') example_reply 0)
     = Inr (ErrorEnvelope \<lparr>statusCode = 404, elapsed = Some 0, error = ''Not Found'', extra = None\<rparr>)" .
  note T'' = dispatcher_first_match [OF p, where before = "[?orders]" and e = ?bare
      and after = "[?users]" and config = example_config and rep = example_reply and w = 0]
  from T'' [THEN conjunct2, THEN conjunct2, THEN conjunct2, THEN conjunct1, THEN mp, OF hyp4,
      THEN conjunct1]
  have d: "fst (dispatcher example_env example_config ([?orders] @ ?bare # [?users])
                  (example_request ''GET'' ''/users'') example_reply 0)
     = Inr (ErrorEnvelope \<lparr>statusCode = 500, elapsed = Some 0,
         error = ''Cannot read properties of undefined (reading 'toLocaleUpperCase')'',
         extra = None\<rparr>)"
    by (simp add: reading_undefined_def TypeError_def)
  from a j b c d show ?thesis by simp
qed

section \<open>Properties of the dispatcher: the response\<close>










section \<open>Properties of the health check\<close>

lemma set_baseUniq: "set (baseUniq xs res) = set xs \<union> set res"
  by (induction xs arbitrary: res) auto

lemma distinct_baseUniq: "distinct res \<Longrightarrow> distinct (baseUniq xs res)"
  by (induction xs arbitrary: res) auto

lemma set_uniq: "set (uniq xs) = set xs"
  by (simp add: uniq_def set_baseUniq)

lemma distinct_uniq: "distinct (uniq xs)"
  by (simp add: uniq_def distinct_baseUniq)

lemma distinct_count_list_one: "distinct xs \<Longrightarrow> x \<in> set xs \<Longrightarrow> count_list xs x = 1"
  by (induction xs) auto

text \<open>
  A probe run on the broker that keeps what it is given: its entry is the same, and it
  ends with one more job, the probe of its key.
\<close>

lemma probe_queue_key_recording:
  "probe_queue_key (recording env) req start key (w, jobs)
     = (case probe_queue_key env req start key w of
          (r, w') \<Rightarrow>
            (r, (w', jobs @ [(key, \<lparr>req_method = ''HEALTH'', url = '''', headers = headers req,
                                     query = ''{}'', params = ''{}'', body = None\<rparr>)])))"
proof -
  let ?data = "\<lparr>req_method = ''HEALTH'', url = '''', headers = headers req,
                 query = ''{}'', params = ''{}'', body = None\<rparr>"
  obtain r1 w1 where s: "save env key ?data w = (r1, w1)"
    by (cases "save env key ?data w")
  show ?thesis
  proof (cases r1)
    case (Inl e)
    with s show ?thesis by (simp add: probe_queue_key_def)
  next
    case (Inr job)
    obtain r2 w2 where t: "wait env key job (3 * 1000) w1 = (r2, w2)"
      by (cases "wait env key job (3 * 1000) w1")
    with s Inr show ?thesis
      by (cases r2) (simp_all add: probe_queue_key_def)
  qed
qed

lemma health_probes_recording:
  "health_probes (recording env) req start keys (w, [])
     = map (\<lambda>key. (fst (probe_queue_key env req start key w),
                    (snd (probe_queue_key env req start key w),
                     [(key, \<lparr>req_method = ''HEALTH'', url = '''', headers = headers req,
                              query = ''{}'', params = ''{}'', body = None\<rparr>)])))
         keys"
  by (simp add: health_probes_def probe_queue_key_recording split: prod.splits)

lemma health_unfold:
  "health env mapper req rep w
     = (Inr (if List.find (\<lambda>r. statusCode r \<noteq> 200)
                  (map fst (health_probes env req (now env w) (uniq (map queue mapper)) w)) \<noteq> None
             then HealthError 503 httpStatus_500_NAME
                    (latest env (map snd (health_probes env req (now env w) (uniq (map queue mapper)) w))
                       (now env w) - now env w)
             else HealthResult 200
                    (map fst (health_probes env req (now env w) (uniq (map queue mapper)) w))
                    (latest env (map snd (health_probes env req (now env w) (uniq (map queue mapper)) w))
                       (now env w) - now env w)),
        rep\<lparr>reply_headers := reply_headers rep @ [(''cache-control'', ''no-cache, no-store'')],
            status := (if List.find (\<lambda>r. statusCode r \<noteq> 200)
                             (map fst (health_probes env req (now env w) (uniq (map queue mapper)) w)) \<noteq> None
                       then 503 else 200)\<rparr>,
        map snd (health_probes env req (now env w) (uniq (map queue mapper)) w))"
  by (simp add: health_def Let_def reply_status_def)

lemma health_worlds:
  "snd (snd (health env mapper req rep w))
     = map snd (health_probes env req (now env w) (uniq (map queue mapper)) w)"
  by (simp add: health_unfold)

lemma health_recording_worlds:
  "map snd (snd (snd (health (recording env) mapper req rep (w, []))))
     = map (\<lambda>key. [(key, \<lparr>req_method = ''HEALTH'', url = '''', headers = headers req,
                           query = ''{}'', params = ''{}'', body = None\<rparr>)])
         (uniq (map queue mapper))"
  by (simp add: health_worlds health_probes_recording comp_def)

lemma health_probes_saved:
  "probes_saved (health (recording env) mapper req rep (w, []))
     = map (\<lambda>key. (key, \<lparr>req_method = ''HEALTH'', url = '''', headers = headers req,
                          query = ''{}'', params = ''{}'', body = None\<rparr>))
         (uniq (map queue mapper))"
proof -
  have "concat (map (\<lambda>key. [f key]) keys) = map f keys" for f :: "string \<Rightarrow> string \<times> request" and keys
    by (induction keys) simp_all
  then show ?thesis
    by (simp add: probes_saved_def health_recording_worlds)
qed

lemma latest_recording:
  "latest (recording env) (map (\<lambda>key. (f key, g key)) keys) t = latest env (map f keys) t"
  unfolding latest_def by (induction keys arbitrary: t) simp_all

lemma health_recording:
  "fst (health (recording env) mapper req rep (w, [])) = fst (health env mapper req rep w)
   \<and> fst (snd (health (recording env) mapper req rep (w, []))) = fst (snd (health env mapper req rep w))"
proof -
  let ?keys = "uniq (map queue mapper)"
  let ?data = "\<lparr>req_method = ''HEALTH'', url = '''', headers = headers req,
                 query = ''{}'', params = ''{}'', body = None\<rparr>"
  have r: "map fst (health_probes (recording env) req (now env w) ?keys (w, []))
             = map fst (health_probes env req (now env w) ?keys w)"
    by (subst health_probes_recording) (simp add: health_probes_def comp_def)
  have l: "latest (recording env) (map snd (health_probes (recording env) req (now env w) ?keys (w, []))) t
             = latest env (map snd (health_probes env req (now env w) ?keys w)) t" for t
    using latest_recording [of env "\<lambda>key. snd (probe_queue_key env req (now env w) key w)"
        "\<lambda>key. [(key, ?data)]" ?keys t]
    by (subst health_probes_recording) (simp add: health_probes_def comp_def)
  show ?thesis
    unfolding health_unfold recording_simps r l by simp
qed

text \<open>
  C6. On a broker that keeps what it is given, each probe of a health check starting with
  none: every probe ends with exactly one job saved, on the queue of its key, and the
  keys are the queue names of the table with the repeats left out, in the order of their
  first entries. So every queue an entry names gets exactly one job, however many entries
  name it, no other queue gets one, and each job is a probe with the method \<open>HEALTH\<close>.
  Keeping the jobs changes neither the response nor the reply.
\<close>

theorem health_one_probe_per_queue:
  "map snd (snd (snd (health (recording env) mapper req rep (w, []))))
     = map (\<lambda>key. [(key, \<lparr>req_method = ''HEALTH'', url = '''', headers = headers req,
                           query = ''{}'', params = ''{}'', body = None\<rparr>)])
         (uniq (map queue mapper))
   \<and> map fst (probes_saved (health (recording env) mapper req rep (w, []))) = uniq (map queue mapper)
   \<and> distinct (map fst (probes_saved (health (recording env) mapper req rep (w, []))))
   \<and> set (map fst (probes_saved (health (recording env) mapper req rep (w, [])))) = queue ` set mapper
   \<and> (\<forall>m \<in> set mapper.
        count_list (map fst (probes_saved (health (recording env) mapper req rep (w, [])))) (queue m) = 1)
   \<and> (\<forall>job \<in> set (probes_saved (health (recording env) mapper req rep (w, []))).
        req_method (snd job) = ''HEALTH'')
   \<and> fst (health (recording env) mapper req rep (w, [])) = fst (health env mapper req rep w)
   \<and> fst (snd (health (recording env) mapper req rep (w, []))) = fst (snd (health env mapper req rep w))"
proof -
  have q: "map fst (probes_saved (health (recording env) mapper req rep (w, []))) = uniq (map queue mapper)"
    by (simp add: health_probes_saved comp_def)
  have d: "distinct (uniq (map queue mapper))" by (rule distinct_uniq)
  have s: "set (uniq (map queue mapper)) = queue ` set mapper" by (simp add: set_uniq)
  have c: "\<forall>m \<in> set mapper. count_list (uniq (map queue mapper)) (queue m) = 1"
  proof
    fix m assume "m \<in> set mapper"
    with s have "queue m \<in> set (uniq (map queue mapper))" by blast
    with d show "count_list (uniq (map queue mapper)) (queue m) = 1"
      by (rule distinct_count_list_one)
  qed
  have h: "\<forall>job \<in> set (probes_saved (health (recording env) mapper req rep (w, []))).
      req_method (snd job) = ''HEALTH''"
    by (auto simp: health_probes_saved)
  from q d s c h health_recording_worlds [of env mapper req rep w]
    health_recording [of env mapper req rep w]
  show ?thesis by simp
qed

text \<open>
  An instance of C6 in the example world: a table of three entries on two queues.
\<close>

theorem health_one_probe_per_queue_witness:
  "map fst (probes_saved
     (health (recording example_env)
        [example_entry ''GET'' ''/users'' ''users'', example_entry ''ALL'' ''/orders'' ''orders'',
         example_entry ''POST'' ''/users'' ''users'']
        (example_request ''GET'' ''/health'') example_reply (0, [])))
     = [''users'', ''orders'']
   \<and> count_list
        (map fst (probes_saved
          (health (recording example_env)
            [example_entry ''GET'' ''/users'' ''users'', example_entry ''ALL'' ''/orders'' ''orders'',
             example_entry ''POST'' ''/users'' ''users'']
            (example_request ''GET'' ''/health'') example_reply (0, []))))
        ''users'' = 1
   \<and> req_method (snd (hd (probes_saved
          (health (recording example_env)
            [example_entry ''GET'' ''/users'' ''users'', example_entry ''ALL'' ''/orders'' ''orders'',
             example_entry ''POST'' ''/users'' ''users'']
            (example_request ''GET'' ''/health'') example_reply (0, []))))) = ''HEALTH''"
proof -
  let ?mapper = "[example_entry ''GET'' ''/users'' ''users'', example_entry ''ALL'' ''/orders'' ''orders'',
         example_entry ''POST'' ''/users'' ''users'']"
  let ?h = "health (recording example_env) ?mapper (example_request ''GET'' ''/health'') example_reply (0, [])"
  note T = health_one_probe_per_queue [where env = example_env and mapper = ?mapper
      and req = "example_request ''GET'' ''/health''" and rep = example_reply and w = 0]
  have u: "uniq (map queue ?mapper) = [''users'', ''orders'']"
    by (simp add: uniq_def example_entry_def)
  have m: "example_entry ''GET'' ''/users'' ''users'' \<in> set ?mapper" by simp
  from T [THEN conjunct2, THEN conjunct1] u
  have a: "map fst (probes_saved ?h) = [''users'', ''orders'']" by simp
  from T [THEN conjunct2, THEN conjunct2, THEN conjunct2, THEN conjunct2, THEN conjunct1, THEN bspec, OF m]
  have b: "count_list (map fst (probes_saved ?h)) ''users'' = 1"
    by (simp add: example_entry_def)
  from a have ne: "hd (probes_saved ?h) \<in> set (probes_saved ?h)"
    by (cases "probes_saved ?h") simp_all
  from T [THEN conjunct2, THEN conjunct2, THEN conjunct2, THEN conjunct2, THEN conjunct2,
      THEN conjunct1, THEN bspec, OF ne]
  have c: "req_method (snd (hd (probes_saved ?h))) = ''HEALTH''" .
  from a b c show ?thesis by simp
qed

section \<open>Aggregation of the probes\<close>




lemma find_not_ok_Some:
  "(\<exists>y. List.find (\<lambda>r. statusCode r \<noteq> 200) rs = Some y) = (\<not> list_all (\<lambda>r. statusCode r = 200) rs)"
  by (induction rs) auto



end
